theory Spec2Isabelle
  imports Complex_Main "HOL-Library.AList" "HOL-Library.Extended_Nat"
begin

section \<open>Conventions\<close>

text \<open>
  The engine is TypeScript. A JavaScript \<open>number\<close> that carries a score, a probability or
  a program's feature value is modelled as a \<^typ>\<open>real\<close>: arithmetic is exact, and the
  values \<open>NaN\<close> and \<open>\<plusminus>Infinity\<close> do not exist. Where the source starts from
  \<open>-Infinity\<close> the model uses \<^typ>\<open>real option\<close> with \<open>None\<close> for
  \<open>-Infinity\<close>. The value-to-bin conversion of the database is the exception: its
  arithmetic is that of IEEE 754 double precision, with rounding, overflow and \<open>NaN\<close>
  (section \<open>Database: value to bin\<close>). Counts and sizes taken from the configuration
  (\<open>numIslands\<close>, \<open>populationSize\<close>, \<open>backtrackDepth\<close>, \<open>maxRetries\<close>, ...) are
  natural numbers. Calls of \<open>Math.random()\<close> are arguments of the model, in the order the
  code draws them.
\<close>

section \<open>CE: the adaptive sampling policy (pacevolve/collaborative.ts)\<close>

record PACEvolveConfig =
  enableMBB :: bool
  momentumWindowSize :: nat
  stagnationThreshold :: real
  backtrackDepth :: nat
  momentumBeta :: real
  backtrackPower :: real
  initialExploreProb :: real
  initialExploitProb :: real
  initialBacktrackProb :: real
  adaptationRate :: real

text \<open>The \<open>pacevolve\<close> block of \<open>DEFAULT_CONFIG\<close> in config.ts.\<close>

definition defaultPACEvolveConfig :: PACEvolveConfig where
  "defaultPACEvolveConfig =
     \<lparr>enableMBB = True, momentumWindowSize = 10, stagnationThreshold = 0.001,
      backtrackDepth = 5, momentumBeta = 0.9, backtrackPower = 1.5,
      initialExploreProb = 0.3, initialExploitProb = 0.5, initialBacktrackProb = 0.2,
      adaptationRate = 0.1\<rparr>"

text \<open>The progress report of \<open>getProgressMetrics\<close>; its fields carry the prefix
  \<open>pm_\<close>, the names without prefix belong to the tracker's own state.\<close>

record ProgressMetrics =
  pm_recentImprovements :: "real list"
  pm_momentum :: real
  pm_iterationsSinceImprovement :: nat
  pm_currentBestScore :: "real option"

record AdaptiveSamplingPolicy =
  exploreProb :: real
  exploitProb :: real
  backtrackProb :: real

text \<open>The sum of the three probabilities after each has been raised to the floor 0.05:
  the \<open>total\<close> of \<open>normalize\<close>.\<close>

definition flooredTotal :: "AdaptiveSamplingPolicy \<Rightarrow> real" where
  "flooredTotal p =
     max 0.05 (exploreProb p) + max 0.05 (exploitProb p) + max 0.05 (backtrackProb p)"

definition normalize :: "AdaptiveSamplingPolicy \<Rightarrow> AdaptiveSamplingPolicy" where
  "normalize p =
     (let e = max 0.05 (exploreProb p);
          x = max 0.05 (exploitProb p);
          b = max 0.05 (backtrackProb p);
          total = e + x + b
      in \<lparr>exploreProb = e / total, exploitProb = x / total, backtrackProb = b / total\<rparr>)"

text \<open>The fields as the constructor assigns them, before it calls \<open>normalize\<close>.\<close>

definition policy_initial :: "PACEvolveConfig \<Rightarrow> AdaptiveSamplingPolicy" where
  "policy_initial cfg =
     \<lparr>exploreProb = initialExploreProb cfg, exploitProb = initialExploitProb cfg,
      backtrackProb = initialBacktrackProb cfg\<rparr>"

definition policy_new :: "PACEvolveConfig \<Rightarrow> AdaptiveSamplingPolicy" where
  "policy_new cfg = normalize (policy_initial cfg)"

text \<open>The body of \<open>update\<close> up to its final call of \<open>normalize\<close>. The optional arguments
  \<open>absoluteProgress\<close> and \<open>peerBest\<close> are options.\<close>

definition policy_adjust ::
  "PACEvolveConfig \<Rightarrow> ProgressMetrics \<Rightarrow> real option \<Rightarrow> real option \<Rightarrow>
   AdaptiveSamplingPolicy \<Rightarrow> AdaptiveSamplingPolicy" where
  "policy_adjust cfg progress absoluteProgress peerBest p =
     (let adaptRate = adaptationRate cfg in
      if pm_momentum progress > 0.01 then
        \<lparr>exploreProb = exploreProb p - adaptRate * 0.5,
         exploitProb = exploitProb p + adaptRate,
         backtrackProb = backtrackProb p - adaptRate * 0.5\<rparr>
      else if \<bar>pm_momentum progress\<bar> < 0.001 then
        (let lagging = (case (absoluteProgress, peerBest) of
                          (Some a, Some b) \<Rightarrow> b - a > 0.05
                        | _ \<Rightarrow> False)
         in \<lparr>exploreProb = exploreProb p + adaptRate * (if lagging then 0.6 else 1.0),
             exploitProb = exploitProb p - adaptRate * 0.7,
             backtrackProb = backtrackProb p + adaptRate * (if lagging then 0.7 else 0.3)\<rparr>)
      else if pm_momentum progress < - 0.01 then
        \<lparr>exploreProb = exploreProb p - adaptRate * 0.3,
         exploitProb = exploitProb p - adaptRate * 0.7,
         backtrackProb = backtrackProb p + adaptRate\<rparr>
      else p)"

definition policy_update ::
  "PACEvolveConfig \<Rightarrow> ProgressMetrics \<Rightarrow> real option \<Rightarrow> real option \<Rightarrow>
   AdaptiveSamplingPolicy \<Rightarrow> AdaptiveSamplingPolicy" where
  "policy_update cfg progress absoluteProgress peerBest p =
     normalize (policy_adjust cfg progress absoluteProgress peerBest p)"

definition sums_to_one :: "AdaptiveSamplingPolicy \<Rightarrow> bool" where
  "sums_to_one p \<longleftrightarrow> exploreProb p + exploitProb p + backtrackProb p = 1"

definition each_at_least :: "real \<Rightarrow> AdaptiveSamplingPolicy \<Rightarrow> bool" where
  "each_at_least c p \<longleftrightarrow> c \<le> exploreProb p \<and> c \<le> exploitProb p \<and> c \<le> backtrackProb p"

text \<open>A progress report with rising momentum, as \<open>getProgressMetrics\<close> returns it.\<close>

definition risingProgress :: ProgressMetrics where
  "risingProgress =
     \<lparr>pm_recentImprovements = [0.2], pm_momentum = 0.02,
      pm_iterationsSinceImprovement = 0, pm_currentBestScore = Some 1\<rparr>"

section \<open>Database: value to bin (database.ts)\<close>

text \<open>
  The numbers of \<open>valueTobin\<close> are double-precision numbers: \<open>NaN\<close>, the two
  infinities, and the finite numbers \<open>Num x\<close>. The two zeros are one number, \<open>Num 0\<close>;
  the sign of a zero decides no comparison and no result of \<open>valueTobin\<close>. The result of
  an arithmetic operation is the exact result rounded by \<open>roundDouble\<close>; the arguments of
  a call are taken as they are.
\<close>

datatype jsnum = NaN | PosInf | NegInf | Num real

text \<open>Rounding to the nearest integer, a tie to the even one.\<close>

definition roundHalfEven :: "real \<Rightarrow> int" where
  "roundHalfEven x =
     (let f = \<lfloor>x\<rfloor>; r = x - of_int f
      in if r < 1 / 2 then f
         else if 1 / 2 < r then f + 1
         else if even f then f else f + 1)"

text \<open>
  The exponent of the unit in the last place of a number with a significand of 53 bits:
  52 below the exponent of the number, and \<open>-1074\<close> for the numbers below
  \<open>2 ^ -1022\<close>, where the precision falls off.
\<close>

definition ulpExponent :: "real \<Rightarrow> int" where
  "ulpExponent x = max \<lfloor>log 2 \<bar>x\<bar>\<rfloor> (- 1022) - 52"

definition overflowThreshold :: real where
  "overflowThreshold = 2 ^ 1024"

text \<open>Round to nearest, ties to even: the real number is rounded to a multiple of its
  unit in the last place; a result of magnitude \<open>2 ^ 1024\<close> or more is an infinity.\<close>

definition roundDouble :: "real \<Rightarrow> jsnum" where
  "roundDouble x =
     (if x = 0 then Num 0
      else (let e = ulpExponent x;
                r = of_int (roundHalfEven (x / 2 powi e)) * 2 powi e
            in if overflowThreshold \<le> \<bar>r\<bar> then (if 0 < x then PosInf else NegInf)
               else Num r))"

text \<open>The operators \<open>-\<close>, \<open>*\<close> and \<open>/\<close> on numbers.\<close>

fun jsMinus :: "jsnum \<Rightarrow> jsnum \<Rightarrow> jsnum" where
  "jsMinus (Num x) (Num y) = roundDouble (x - y)"
| "jsMinus NaN b = NaN"
| "jsMinus a NaN = NaN"
| "jsMinus PosInf PosInf = NaN"
| "jsMinus NegInf NegInf = NaN"
| "jsMinus PosInf b = PosInf"
| "jsMinus NegInf b = NegInf"
| "jsMinus a PosInf = NegInf"
| "jsMinus a NegInf = PosInf"

fun jsTimes :: "jsnum \<Rightarrow> jsnum \<Rightarrow> jsnum" where
  "jsTimes (Num x) (Num y) = roundDouble (x * y)"
| "jsTimes NaN b = NaN"
| "jsTimes a NaN = NaN"
| "jsTimes PosInf (Num y) = (if y = 0 then NaN else if 0 < y then PosInf else NegInf)"
| "jsTimes NegInf (Num y) = (if y = 0 then NaN else if 0 < y then NegInf else PosInf)"
| "jsTimes (Num x) PosInf = (if x = 0 then NaN else if 0 < x then PosInf else NegInf)"
| "jsTimes (Num x) NegInf = (if x = 0 then NaN else if 0 < x then NegInf else PosInf)"
| "jsTimes PosInf PosInf = PosInf"
| "jsTimes NegInf NegInf = PosInf"
| "jsTimes PosInf NegInf = NegInf"
| "jsTimes NegInf PosInf = NegInf"

fun jsDivide :: "jsnum \<Rightarrow> jsnum \<Rightarrow> jsnum" where
  "jsDivide (Num x) (Num y) =
     (if y = 0 then (if x = 0 then NaN else if 0 < x then PosInf else NegInf)
      else roundDouble (x / y))"
| "jsDivide NaN b = NaN"
| "jsDivide a NaN = NaN"
| "jsDivide (Num x) b = Num 0"
| "jsDivide PosInf (Num y) = (if y < 0 then NegInf else PosInf)"
| "jsDivide NegInf (Num y) = (if y < 0 then PosInf else NegInf)"
| "jsDivide a b = NaN"

text \<open>\<open>Math.floor\<close>, \<open>Math.min\<close> and \<open>Math.max\<close>\<close>

fun Math_floor :: "jsnum \<Rightarrow> jsnum" where
  "Math_floor (Num x) = Num (of_int \<lfloor>x\<rfloor>)"
| "Math_floor a = a"

fun Math_min :: "jsnum \<Rightarrow> jsnum \<Rightarrow> jsnum" where
  "Math_min (Num x) (Num y) = Num (min x y)"
| "Math_min NaN b = NaN"
| "Math_min a NaN = NaN"
| "Math_min NegInf b = NegInf"
| "Math_min a NegInf = NegInf"
| "Math_min PosInf b = b"
| "Math_min a PosInf = a"

fun Math_max :: "jsnum \<Rightarrow> jsnum \<Rightarrow> jsnum" where
  "Math_max (Num x) (Num y) = Num (max x y)"
| "Math_max NaN b = NaN"
| "Math_max a NaN = NaN"
| "Math_max PosInf b = PosInf"
| "Math_max a PosInf = PosInf"
| "Math_max NegInf b = b"
| "Math_max a NegInf = a"

text \<open>A number that is not a finite number with digits after the point.\<close>

fun integral :: "jsnum \<Rightarrow> bool" where
  "integral (Num x) \<longleftrightarrow> x = of_int \<lfloor>x\<rfloor>"
| "integral a \<longleftrightarrow> True"

record FeatureStats =
  fmin :: jsnum
  fmax :: jsnum
  fvalues :: "jsnum list"

type_synonym featureStats = "string \<rightharpoonup> FeatureStats"

text \<open>\<open>valueTobin\<close> returns the bin and the updated statistics.\<close>

definition valueTobin ::
  "featureStats \<Rightarrow> string \<Rightarrow> jsnum \<Rightarrow> int \<Rightarrow> jsnum \<times> featureStats" where
  "valueTobin fs dimension v bins =
     (case fs dimension of
        None \<Rightarrow> (Num 0, fs(dimension \<mapsto> \<lparr>fmin = v, fmax = v, fvalues = [v]\<rparr>))
      | Some stats \<Rightarrow>
          (let stats' = \<lparr>fmin = Math_min (fmin stats) v, fmax = Math_max (fmax stats) v,
                         fvalues = fvalues stats @ [v]\<rparr>;
               fs' = fs(dimension \<mapsto> stats');
               range = jsMinus (fmax stats') (fmin stats')
           in if range = Num 0 then (Num 0, fs')
              else
                (let binIdx = Math_floor
                       (jsTimes (jsDivide (jsMinus v (fmin stats')) range)
                          (Num (of_int bins)))
                 in (Math_min binIdx (jsMinus (Num (of_int bins)) (Num 1)), fs'))))"

section \<open>Programs (types.ts)\<close>

text \<open>
  A program object. \<open>metrics\<close> is the object's list of entries in insertion order, with
  distinct names. \<open>metadata\<close> is a reference: the address of the metadata object, whose
  \<open>island\<close> field lives in the database's heap below. Copying a program with
  \<open>{ ...program }\<close> copies the address, so the copy shares the metadata object.
\<close>

record Program =
  pid :: string
  code :: string
  language :: string
  parentId :: "string option"
  generation :: nat
  timestamp :: nat
  iterationFound :: nat
  metrics :: "(string \<times> real) list"
  complexity :: real
  diversity :: real
  metadata :: nat

section \<open>MBB: the momentum tracker (pacevolve/backtracking.ts, per-island version)\<close>

record IslandMomentum =
  recentRelativeImprovements :: "real list"
  momentum :: real
  backtrackHistory :: "(nat \<times> Program) list"
  iterationsSinceImprovement :: nat
  currentBestScore :: "real option"
  initialScore :: "real option"

type_synonym MomentumTracker = "nat \<rightharpoonup> IslandMomentum"

definition tracker_new :: MomentumTracker where
  "tracker_new = Map.empty"

definition getState :: "MomentumTracker \<Rightarrow> nat \<Rightarrow> IslandMomentum" where
  "getState tr islandId =
     (case tr islandId of
        Some state \<Rightarrow> state
      | None \<Rightarrow> \<lparr>recentRelativeImprovements = [], momentum = 0, backtrackHistory = [],
                  iterationsSinceImprovement = 0, currentBestScore = None,
                  initialScore = None\<rparr>)"

text \<open>\<open>program.metrics.combined_score || 0\<close>\<close>

definition scoreOf :: "Program \<Rightarrow> real" where
  "scoreOf program = (case map_of (metrics program) ''combined_score'' of
                        Some s \<Rightarrow> s | None \<Rightarrow> 0)"

definition relativeGap :: "real \<Rightarrow> real option \<Rightarrow> real" where
  "relativeGap previousBest targetScore =
     (case targetScore of
        Some t \<Rightarrow> max \<bar>t - previousBest\<bar> 0.000001
      | None \<Rightarrow> max \<bar>previousBest\<bar> 0.000001)"

text \<open>\<open>score > state.currentBestScore\<close>, where \<open>None\<close> is \<open>-Infinity\<close>.\<close>

definition exceeds :: "real \<Rightarrow> real option \<Rightarrow> bool" where
  "exceeds score best = (case best of None \<Rightarrow> True | Some b \<Rightarrow> score > b)"

text \<open>\<open>state.currentBestScore === -Infinity ? state.initialScore || score : state.currentBestScore\<close>\<close>

definition previousBestOf :: "IslandMomentum \<Rightarrow> real \<Rightarrow> real" where
  "previousBestOf state score =
     (case currentBestScore state of
        None \<Rightarrow> (case initialScore state of
                    Some i \<Rightarrow> if i \<noteq> 0 then i else score
                  | None \<Rightarrow> score)
      | Some b \<Rightarrow> b)"

text \<open>\<open>xs.push(x); if (xs.length > limit) xs.shift()\<close>\<close>

definition pushLimited :: "nat \<Rightarrow> 'a list \<Rightarrow> 'a \<Rightarrow> 'a list" where
  "pushLimited limit xs x = (if length (xs @ [x]) > limit then tl (xs @ [x]) else xs @ [x])"

text \<open>\<open>xs.at(-1) || 0\<close>\<close>

definition latestOf :: "real list \<Rightarrow> real" where
  "latestOf xs = (if xs = [] then 0 else last xs)"

text \<open>\<open>if (state.initialScore === null) state.initialScore = score\<close>\<close>

definition withInitial :: "IslandMomentum \<Rightarrow> real \<Rightarrow> IslandMomentum" where
  "withInitial st score =
     (if initialScore st = None then st\<lparr>initialScore := Some score\<rparr> else st)"

definition tracker_update ::
  "PACEvolveConfig \<Rightarrow> Program \<Rightarrow> nat \<Rightarrow> nat \<Rightarrow> real option \<Rightarrow> MomentumTracker
   \<Rightarrow> MomentumTracker" where
  "tracker_update cfg program iteration islandId targetScore tr =
     (if \<not> enableMBB cfg then tr
      else
        let state0 = getState tr islandId;
            score = scoreOf program;
            state = withInitial state0 score;
            (relativeImprovement, state1) =
              (if exceeds score (currentBestScore state) then
                 let previousBest = previousBestOf state score;
                     gapDenominator = relativeGap previousBest targetScore
                 in ((score - previousBest) / gapDenominator,
                     state\<lparr>currentBestScore := Some score,
                           iterationsSinceImprovement := 0,
                           backtrackHistory :=
                             pushLimited (backtrackDepth cfg) (backtrackHistory state)
                               (iteration, program)\<rparr>)
               else (0, state\<lparr>iterationsSinceImprovement :=
                                  iterationsSinceImprovement state + 1\<rparr>));
            recent = pushLimited (momentumWindowSize cfg)
                       (recentRelativeImprovements state1) relativeImprovement;
            beta = momentumBeta cfg;
            latest = latestOf recent
        in tr(islandId \<mapsto>
                state1\<lparr>recentRelativeImprovements := recent,
                       momentum := beta * momentum state1 + (1 - beta) * latest\<rparr>))"

definition getProgressMetrics :: "MomentumTracker \<Rightarrow> nat \<Rightarrow> ProgressMetrics" where
  "getProgressMetrics tr islandId =
     (let state = getState tr islandId
      in \<lparr>pm_recentImprovements = recentRelativeImprovements state,
          pm_momentum = momentum state,
          pm_iterationsSinceImprovement = iterationsSinceImprovement state,
          pm_currentBestScore = currentBestScore state\<rparr>)"

text \<open>A program with the given id and combined score, for the examples.\<close>

definition scoredProgram :: "string \<Rightarrow> real \<Rightarrow> Program" where
  "scoredProgram i s =
     \<lparr>pid = i, code = ''x'', language = ''python'', parentId = None, generation = 0,
      timestamp = 0, iterationFound = 0, metrics = [(''combined_score'', s)],
      complexity = 1, diversity = 0, metadata = 0\<rparr>"

text \<open>The tracker after one update of island 0 with a program of score 0.5, at
  iteration 1, under the default configuration and without a target score.\<close>

definition trackerAfterFirst :: MomentumTracker where
  "trackerAfterFirst =
     tracker_update defaultPACEvolveConfig (scoredProgram ''a'' 0.5) 1 0 None tracker_new"

section \<open>Utilities: applying diffs (utils.ts)\<close>

record Diff =
  search :: string
  replace :: string

text \<open>
  \<open>String.prototype.replace(search, replace)\<close> with two strings: the first occurrence
  of \<open>search\<close> is located as \<open>indexOf\<close> does, and the replacement text is the
  expansion of \<open>replace\<close> as a replacement template (ECMAScript \<open>GetSubstitution\<close>
  with no capture groups): \<open>$$\<close> stands for one dollar sign, \<open>$&\<close> for the matched
  text, \<open>$`\<close> for the text before the match and \<open>$'\<close> for the text after it; every
  other character, also a dollar sign followed by something else, stands for itself.
\<close>

fun indexOf :: "string \<Rightarrow> string \<Rightarrow> nat option" where
  "indexOf pat [] = (if pat = [] then Some 0 else None)"
| "indexOf pat (c # cs) =
     (if take (length pat) (c # cs) = pat then Some 0
      else map_option Suc (indexOf pat cs))"

fun getSubstitution :: "string \<Rightarrow> string \<Rightarrow> string \<Rightarrow> string \<Rightarrow> string" where
  "getSubstitution matched before after [] = []"
| "getSubstitution matched before after [c] = [c]"
| "getSubstitution matched before after (c # d # r) =
     (if c = CHR ''$'' \<and> d = CHR ''$'' then CHR ''$'' # getSubstitution matched before after r
      else if c = CHR ''$'' \<and> d = CHR ''&'' then matched @ getSubstitution matched before after r
      else if c = CHR ''$'' \<and> d = CHR 0x60 then before @ getSubstitution matched before after r
      else if c = CHR ''$'' \<and> d = CHR 0x27 then after @ getSubstitution matched before after r
      else c # getSubstitution matched before after (d # r))"

definition jsReplace :: "string \<Rightarrow> string \<Rightarrow> string \<Rightarrow> string" where
  "jsReplace s pat rep =
     (case indexOf pat s of
        None \<Rightarrow> s
      | Some i \<Rightarrow>
          take i s
          @ getSubstitution pat (take i s) (drop (i + length pat) s) rep
          @ drop (i + length pat) s)"

definition applyDiffs :: "string \<Rightarrow> Diff list \<Rightarrow> string" where
  "applyDiffs originalCode ds =
     foldl (\<lambda>result diff. jsReplace result (search diff) (replace diff)) originalCode ds"

definition occursAt :: "string \<Rightarrow> string \<Rightarrow> nat \<Rightarrow> bool" where
  "occursAt pat s i \<longleftrightarrow> i + length pat \<le> length s \<and> take (length pat) (drop i s) = pat"

definition countOccurrences :: "string \<Rightarrow> string \<Rightarrow> nat" where
  "countOccurrences pat s = length (filter (occursAt pat s) [0..<Suc (length s)])"

section \<open>Template manager (prompt/templates.ts)\<close>

text \<open>
  The file system as the manager sees it: \<open>fs dir\<close> is \<open>None\<close> when the directory
  does not exist, and otherwise the entries \<open>readdirSync\<close> lists, each with the content
  \<open>readFileSync\<close> returns. The fragments, which are loaded from a JSON file into a map
  of their own, are left out.
\<close>

type_synonym fileSystem = "string \<Rightarrow> (string \<times> string) list option"

definition endsWith :: "string \<Rightarrow> string \<Rightarrow> bool" where
  "endsWith s suffix \<longleftrightarrow>
     length suffix \<le> length s \<and> drop (length s - length suffix) s = suffix"

text \<open>\<open>path.basename(file, ext)\<close> for a directory entry, which holds no separator.\<close>

definition basename :: "string \<Rightarrow> string \<Rightarrow> string" where
  "basename file ext =
     (if ext \<noteq> [] \<and> endsWith file ext then take (length file - length ext) file else file)"

definition loadTemplatesFromDir ::
  "fileSystem \<Rightarrow> string \<Rightarrow> (string \<rightharpoonup> string) \<Rightarrow> (string \<rightharpoonup> string)" where
  "loadTemplatesFromDir fs dir templates =
     (case fs dir of
        None \<Rightarrow> templates
      | Some files \<Rightarrow>
          foldl (\<lambda>t (file, content).
                   if endsWith file ''.txt'' then t(basename file ''.txt'' \<mapsto> content) else t)
            templates files)"

definition loadTemplates ::
  "fileSystem \<Rightarrow> string option \<Rightarrow> string \<Rightarrow> (string \<rightharpoonup> string) \<Rightarrow> (string \<rightharpoonup> string)"
  where
  "loadTemplates fs customTemplateDir defaultTemplateDir templates =
     (let t1 = (case customTemplateDir of
                  Some dir \<Rightarrow> if dir \<noteq> [] \<and> fs dir \<noteq> None
                              then loadTemplatesFromDir fs dir templates else templates
                | None \<Rightarrow> templates)
      in if fs defaultTemplateDir \<noteq> None then loadTemplatesFromDir fs defaultTemplateDir t1
         else t1)"

text \<open>The constructor: an empty map, then \<open>loadTemplates\<close>.\<close>

definition TemplateManager_new :: "fileSystem \<Rightarrow> string option \<Rightarrow> string \<Rightarrow> (string \<rightharpoonup> string)"
  where
  "TemplateManager_new fs customTemplateDir defaultTemplateDir =
     loadTemplates fs customTemplateDir defaultTemplateDir Map.empty"

definition getTemplate :: "(string \<rightharpoonup> string) \<Rightarrow> string \<Rightarrow> string" where
  "getTemplate templates name =
     (case templates name of None \<Rightarrow> [] | Some template \<Rightarrow> template)"

text \<open>A user directory and the built-in directory that both hold \<open>diff_user.txt\<close>.\<close>

definition collidingFs :: fileSystem where
  "collidingFs dir =
     (if dir = ''user'' then Some [(''diff_user.txt'', ''USER VERSION'')]
      else if dir = ''defaults'' then
        Some [(''diff_user.txt'', ''DEFAULT VERSION''), (''fragments.json'', ''{}'')]
      else None)"

section \<open>Evaluator: retries (evaluator.ts)\<close>

datatype artifact_value = AString string | ANumber nat

type_synonym artifacts = "(string \<times> artifact_value) list"

record EvaluationResult =
  er_metrics :: "(string \<times> real) list"
  er_artifacts :: "artifacts option"

record EvaluatorConfig =
  timeout :: real
  maxRetries :: nat
  cascadeEvaluation :: bool
  useLlmFeedback :: bool
  llmFeedbackWeight :: real

text \<open>
  What one attempt meets outside the evaluator's own code. \<open>mkdtempThrows n\<close> is the
  message of the error \<open>mkdtempSync\<close> raises in attempt \<open>n\<close>, if it does; that call is
  before the \<open>try\<close>. \<open>evaluation n\<close> is the outcome of writing the temporary file and
  running \<open>cascadeEvaluate\<close> or \<open>directEvaluate\<close>, a timeout being a thrown error;
  \<open>llmFeedback n\<close> is the outcome of \<open>llmEvaluate\<close>.
\<close>

datatype eval_outcome = EvalThrows string | EvalReturns EvaluationResult

datatype llm_outcome = LlmThrows string | LlmReturns "(string \<times> real) list option"

record EvalEnv =
  mkdtempThrows :: "nat \<Rightarrow> string option"
  evaluation :: "nat \<Rightarrow> eval_outcome"
  llmFeedback :: "nat \<Rightarrow> llm_outcome"
  hasLlmEnsemble :: bool
  artifactsEnabled :: bool

datatype eval_event = Attempt nat | Recorded string artifacts | Sleep nat

type_synonym pendingArtifacts = "string \<rightharpoonup> artifacts"

definition failureArtifacts :: "string \<Rightarrow> nat \<Rightarrow> artifacts" where
  "failureArtifacts message attempt =
     [(''stderr'', AString message), (''failureStage'', AString ''evaluation''),
      (''attempt'', ANumber (attempt + 1))]"

text \<open>The body of the \<open>try\<close>: the new pending artifacts, the events, and the metrics
  returned or the message of the error thrown.\<close>

definition attemptBody ::
  "EvaluatorConfig \<Rightarrow> EvalEnv \<Rightarrow> string \<Rightarrow> nat \<Rightarrow> pendingArtifacts
   \<Rightarrow> pendingArtifacts \<times> eval_event list \<times> (string + (string \<times> real) list)" where
  "attemptBody cfg env programId attempt pending =
     (case evaluation env attempt of
        EvalThrows message \<Rightarrow> (pending, [], Inl message)
      | EvalReturns result \<Rightarrow>
          (let (pending1, ev) =
                 (case er_artifacts result of
                    Some a \<Rightarrow> if artifactsEnabled env \<and> programId \<noteq> []
                              then (pending(programId \<mapsto> a), [Recorded programId a])
                              else (pending, [])
                  | None \<Rightarrow> (pending, []))
           in if useLlmFeedback cfg \<and> hasLlmEnsemble env then
                (case llmFeedback env attempt of
                   LlmThrows message \<Rightarrow> (pending1, ev, Inl message)
                 | LlmReturns None \<Rightarrow> (pending1, ev, Inr (er_metrics result))
                 | LlmReturns (Some ms) \<Rightarrow>
                     (pending1, ev,
                      Inr (foldl (\<lambda>m (name, v).
                                    AList.update (''llm_'' @ name) (v * llmFeedbackWeight cfg) m)
                             (er_metrics result) ms)))
              else (pending1, ev, Inr (er_metrics result))))"

text \<open>The retry loop from attempt \<open>attempt\<close> on. The result is \<open>Inl\<close> when
  \<open>evaluateProgram\<close> raises and \<open>Inr\<close> with the metrics when it returns.\<close>

function evaluateLoop ::
  "EvaluatorConfig \<Rightarrow> EvalEnv \<Rightarrow> string \<Rightarrow> nat \<Rightarrow> pendingArtifacts \<Rightarrow> eval_event list
   \<Rightarrow> (string + (string \<times> real) list) \<times> pendingArtifacts \<times> eval_event list" where
  "evaluateLoop cfg env programId attempt pending trace =
     (if attempt < maxRetries cfg + 1 then
        (case mkdtempThrows env attempt of
           Some message \<Rightarrow> (Inl message, pending, trace)
         | None \<Rightarrow>
             (case attemptBody cfg env programId attempt pending of
                (pending1, ev, Inr ms) \<Rightarrow>
                  (Inr ms, pending1, trace @ [Attempt attempt] @ ev)
              | (pending1, ev, Inl message) \<Rightarrow>
                  (let (pending2, rec) =
                         (if artifactsEnabled env \<and> programId \<noteq> []
                          then (pending1(programId \<mapsto> failureArtifacts message attempt),
                                [Recorded programId (failureArtifacts message attempt)])
                          else (pending1, []));
                       sleep = (if attempt < maxRetries cfg then [Sleep 1000] else [])
                   in evaluateLoop cfg env programId (attempt + 1) pending2
                        (trace @ [Attempt attempt] @ ev @ rec @ sleep))))
      else (Inr [(''error'', 0)], pending, trace))"
  by pat_completeness auto
termination
  by (relation "measure (\<lambda>(cfg, env, programId, attempt, pending, trace).
                           maxRetries cfg + 1 - attempt)") auto

declare evaluateLoop.simps [simp del]

definition evaluateProgram ::
  "EvaluatorConfig \<Rightarrow> EvalEnv \<Rightarrow> string \<Rightarrow> pendingArtifacts
   \<Rightarrow> (string + (string \<times> real) list) \<times> pendingArtifacts \<times> eval_event list" where
  "evaluateProgram cfg env programId pending = evaluateLoop cfg env programId 0 pending []"

text \<open>The events of a failed attempt whose error has the message \<open>m\<close>.\<close>

definition failedAttemptEvents ::
  "EvaluatorConfig \<Rightarrow> EvalEnv \<Rightarrow> string \<Rightarrow> (nat \<Rightarrow> string) \<Rightarrow> nat \<Rightarrow> eval_event list" where
  "failedAttemptEvents cfg env programId m attempt =
     [Attempt attempt]
     @ (if artifactsEnabled env \<and> programId \<noteq> []
        then [Recorded programId (failureArtifacts (m attempt) attempt)] else [])
     @ (if attempt < maxRetries cfg then [Sleep 1000] else [])"

text \<open>The \<open>evaluator\<close> block of the default configuration, and an evaluator whose every
  call throws the error \<open>boom\<close>.\<close>

definition defaultEvaluatorConfig :: EvaluatorConfig where
  "defaultEvaluatorConfig =
     \<lparr>timeout = 300, maxRetries = 3, cascadeEvaluation = True, useLlmFeedback = False,
      llmFeedbackWeight = 0.1\<rparr>"

definition failingEnv :: EvalEnv where
  "failingEnv =
     \<lparr>mkdtempThrows = (\<lambda>n. None), evaluation = (\<lambda>n. EvalThrows ''boom''),
      llmFeedback = (\<lambda>n. LlmReturns None), hasLlmEnsemble = True,
      artifactsEnabled = True\<rparr>"

section \<open>Controller: the run loop (controller.ts)\<close>

datatype run_status = Idle | Running | Paused | Completed | Failed

record EvolutionStatus =
  status :: run_status
  iteration :: nat
  totalIterations :: nat
  bestScore :: "real option"

record EngineConfig =
  maxIterations :: nat
  checkpointInterval :: nat

text \<open>
  What the loop meets: \<open>shouldStopAt i\<close> is the value of \<open>this.shouldStop\<close> when the
  loop condition is evaluated for iteration \<open>i\<close>; \<open>iterationThrows i\<close> tells whether
  \<open>runIteration(i)\<close> raises; \<open>bestAfter i\<close> is what \<open>database.getBestProgram()\<close>
  returns after iteration \<open>i\<close>; \<open>checkpointThrows i\<close> tells whether \<open>saveCheckpoint(i)\<close>
  raises.
\<close>

record RunEnv =
  shouldStopAt :: "nat \<Rightarrow> bool"
  iterationThrows :: "nat \<Rightarrow> bool"
  bestAfter :: "nat \<Rightarrow> Program option"
  checkpointThrows :: "nat \<Rightarrow> bool"

text \<open>The status object, and the iterations for which \<open>runIteration\<close> was called.\<close>

record RunState =
  engineStatus :: EvolutionStatus
  ran :: "nat list"

text \<open>\<open>best && best.metrics.combined_score >= targetScore\<close>\<close>

definition targetReached :: "real \<Rightarrow> Program option \<Rightarrow> bool" where
  "targetReached targetScore best =
     (case best of
        None \<Rightarrow> False
      | Some b \<Rightarrow> (case map_of (metrics b) ''combined_score'' of
                     None \<Rightarrow> False
                   | Some s \<Rightarrow> s \<ge> targetScore))"

text \<open>\<open>best ? best.metrics.combined_score : null\<close>\<close>

definition bestScoreOf :: "Program option \<Rightarrow> real option" where
  "bestScoreOf best = (case best of None \<Rightarrow> None
                       | Some b \<Rightarrow> map_of (metrics b) ''combined_score'')"

definition checkpointDue :: "EngineConfig \<Rightarrow> nat \<Rightarrow> bool" where
  "checkpointDue cfg i \<longleftrightarrow> checkpointInterval cfg \<noteq> 0 \<and> i mod checkpointInterval cfg = 0"

function run_loop ::
  "EngineConfig \<Rightarrow> RunEnv \<Rightarrow> real option \<Rightarrow> nat \<Rightarrow> nat \<Rightarrow> RunState \<Rightarrow> RunState" where
  "run_loop cfg env targetScore iterations i st =
     (if i \<le> iterations \<and> \<not> shouldStopAt env i then
        (let st1 = st\<lparr>ran := ran st @ [i]\<rparr> in
         if iterationThrows env i then run_loop cfg env targetScore iterations (i + 1) st1
         else if (case targetScore of None \<Rightarrow> False
                  | Some t \<Rightarrow> targetReached t (bestAfter env i)) then st1
         else if checkpointDue cfg i \<and> checkpointThrows env i
           then run_loop cfg env targetScore iterations (i + 1) st1
         else run_loop cfg env targetScore iterations (i + 1)
                (st1\<lparr>engineStatus := (engineStatus st1)
                        \<lparr>iteration := i, bestScore := bestScoreOf (bestAfter env i)\<rparr>\<rparr>))
      else st)"
  by pat_completeness auto
termination
  by (relation "measure (\<lambda>(cfg, env, targetScore, iterations, i, st). Suc iterations - i)")
    auto

declare run_loop.simps [simp del]

text \<open>\<open>maxIterations || this.config.maxIterations\<close>\<close>

definition iterationsOf :: "EngineConfig \<Rightarrow> nat option \<Rightarrow> nat" where
  "iterationsOf cfg maxIterationsArg =
     (case maxIterationsArg of
        Some m \<Rightarrow> if m \<noteq> 0 then m else maxIterations cfg
      | None \<Rightarrow> maxIterations cfg)"

definition run :: "EngineConfig \<Rightarrow> RunEnv \<Rightarrow> nat option \<Rightarrow> real option \<Rightarrow> RunState" where
  "run cfg env maxIterationsArg targetScore =
     (let iterations = iterationsOf cfg maxIterationsArg;
          st0 = \<lparr>engineStatus = \<lparr>status = Running, iteration = 0,
                                 totalIterations = iterations, bestScore = None\<rparr>,
                 ran = []\<rparr>;
          st = run_loop cfg env targetScore iterations 1 st0
      in st\<lparr>engineStatus := (engineStatus st)\<lparr>status := Completed\<rparr>\<rparr>)"

text \<open>A run in which the best program scores 0.5 after iteration 1 and 1 from
  iteration 2 on, nothing raises and nobody asks to stop.\<close>

definition exampleRunEnv :: RunEnv where
  "exampleRunEnv =
     \<lparr>shouldStopAt = (\<lambda>i. False), iterationThrows = (\<lambda>i. False),
      bestAfter = (\<lambda>i. Some (scoredProgram ''best'' (if i < 2 then 0.5 else 1))),
      checkpointThrows = (\<lambda>i. False)\<rparr>"

definition exampleEngineConfig :: EngineConfig where
  "exampleEngineConfig = \<lparr>maxIterations = 5, checkpointInterval = 10\<rparr>"

section \<open>Utilities: fitness and edit distance (utils.ts)\<close>

definition safeNumericAverage :: "(string \<times> real) list \<Rightarrow> real" where
  "safeNumericAverage ms =
     (let numericValues = map snd ms
      in if length numericValues > 0
         then sum_list numericValues / real (length numericValues) else 0)"

definition getFitnessScore :: "(string \<times> real) list \<Rightarrow> string list \<Rightarrow> real" where
  "getFitnessScore ms dims =
     (case map_of ms ''combined_score'' of
        Some s \<Rightarrow> s
      | None \<Rightarrow> safeNumericAverage (filter (\<lambda>(key, v). key \<notin> set dims) ms))"

text \<open>
  The dynamic-programming table of \<open>calculateEditDistance\<close>, row by row. \<open>editRow\<close>
  computes the entries 1 to \<open>len2\<close> of the row of the character \<open>c\<close> from the previous
  row; \<open>left\<close> is the entry just computed.
\<close>

fun editRow :: "char \<Rightarrow> string \<Rightarrow> nat list \<Rightarrow> nat \<Rightarrow> nat list" where
  "editRow c (d # ds) (diag # up # prev) left =
     (let v = (if c = d then diag else 1 + min up (min left diag))
      in v # editRow c ds (up # prev) v)"
| "editRow c ds prev left = []"

definition calculateEditDistance :: "string \<Rightarrow> string \<Rightarrow> nat" where
  "calculateEditDistance s1 s2 =
     last (fst (foldl (\<lambda>(row, i) c. (i # editRow c s2 row i, i + 1))
                  ([0..<Suc (length s2)], 1) s1))"

section \<open>Program database (database.ts)\<close>

datatype featureBinsConfig = BinsNumber int | BinsPerDimension "(string \<times> int) list"

record DatabaseConfig =
  populationSize :: nat
  archiveSize :: nat
  numIslands :: nat
  explorationRatio :: real
  exploitationRatio :: real
  featureDimensions :: "string list"
  featureBins :: featureBinsConfig
  migrationInterval :: nat
  migrationRate :: real

text \<open>
  The fields of the class. A \<open>Map\<close> is an association list and a \<open>Set\<close> a list without
  repetition, both in insertion order, which is the order \<open>Array.from\<close> lists them in.
  \<open>metadataIsland\<close> is the part of the heap the database reads and writes: the
  \<open>island\<close> field of the metadata object at an address, \<open>None\<close> when it is undefined.
  \<open>lastMigrationGeneration\<close> is an extended natural number, since \<open>Math.min()\<close> of no
  arguments is \<open>Infinity\<close>.
\<close>

record ProgramDatabase =
  programs :: "(string \<times> Program) list"
  islands :: "string list list"
  islandFeatureMaps :: "(string \<times> string) list list"
  archive :: "string list"
  bestProgramId :: "string option"
  islandBestPrograms :: "string option list"
  currentIsland :: nat
  islandGenerations :: "nat list"
  lastMigrationGeneration :: enat
  lastIteration :: nat
  diversityReferenceSet :: "string list"
  featureStats :: featureStats
  featureBinsPerDim :: "(string \<times> int) list"
  metadataIsland :: "nat \<rightharpoonup> nat"

datatype db_error = TypeError | EmptyIsland nat

text \<open>\<open>Set.add\<close> and \<open>Set.delete\<close>\<close>

definition setAdd :: "'a \<Rightarrow> 'a list \<Rightarrow> 'a list" where
  "setAdd x xs = (if x \<in> set xs then xs else xs @ [x])"

definition setDelete :: "'a \<Rightarrow> 'a list \<Rightarrow> 'a list" where
  "setDelete x xs = removeAll x xs"

text \<open>\<open>Array.prototype.slice(0, n)\<close>; a negative \<open>n\<close> counts from the end.\<close>

definition slice0 :: "int \<Rightarrow> 'a list \<Rightarrow> 'a list" where
  "slice0 n xs = (if n < 0 then take (nat (int (length xs) + n)) xs else take (nat n) xs)"

text \<open>The constructor, on the heap it finds.\<close>

definition ProgramDatabase_new :: "DatabaseConfig \<Rightarrow> (nat \<rightharpoonup> nat) \<Rightarrow> ProgramDatabase" where
  "ProgramDatabase_new cfg heap =
     \<lparr>programs = [],
      islands = replicate (numIslands cfg) [],
      islandFeatureMaps = replicate (numIslands cfg) [],
      archive = [],
      bestProgramId = None,
      islandBestPrograms = replicate (numIslands cfg) None,
      currentIsland = 0,
      islandGenerations = replicate (numIslands cfg) 0,
      lastMigrationGeneration = 0,
      lastIteration = 0,
      diversityReferenceSet = [],
      featureStats = Map.empty,
      featureBinsPerDim =
        (case featureBins cfg of
           BinsPerDimension m \<Rightarrow> m
         | BinsNumber b \<Rightarrow> map (\<lambda>dimName. (dimName, b)) (featureDimensions cfg)),
      metadataIsland = heap\<rparr>"

definition fitness :: "DatabaseConfig \<Rightarrow> Program \<Rightarrow> real" where
  "fitness cfg program = getFitnessScore (metrics program) (featureDimensions cfg)"

definition isBetter :: "DatabaseConfig \<Rightarrow> Program \<Rightarrow> Program \<Rightarrow> bool" where
  "isBetter cfg program1 program2 \<longleftrightarrow> fitness cfg program1 > fitness cfg program2"

definition calculateDiversity :: "ProgramDatabase \<Rightarrow> Program \<Rightarrow> real" where
  "calculateDiversity db program =
     (if length (diversityReferenceSet db) = 0 then 0
      else (let distances = map (\<lambda>refCode. real (calculateEditDistance (code program) refCode))
                              (diversityReferenceSet db)
            in sum_list distances / real (length distances)))"

definition featureValue :: "DatabaseConfig \<Rightarrow> ProgramDatabase \<Rightarrow> Program \<Rightarrow> string \<Rightarrow> real"
  where
  "featureValue cfg db program dimName =
     (if dimName = ''complexity'' then
        (if complexity program \<noteq> 0 then complexity program
         else real (length (code program)))
      else if dimName = ''diversity'' then calculateDiversity db program
      else if dimName = ''score'' then fitness cfg program
      else (case map_of (metrics program) dimName of Some v \<Rightarrow> v | None \<Rightarrow> 0))"

text \<open>\<open>this.featureBinsPerDim[dimName] || 10\<close>\<close>

definition binsFor :: "ProgramDatabase \<Rightarrow> string \<Rightarrow> int" where
  "binsFor db dimName = (case map_of (featureBinsPerDim db) dimName of
                       Some b \<Rightarrow> if b \<noteq> 0 then b else 10
                     | None \<Rightarrow> 10)"

text \<open>The loop of \<open>calculateFeatureCoords\<close> over the dimensions still to do; the
  statistics are threaded through the calls of \<open>valueTobin\<close>. The feature value of a
  program is a finite number.\<close>

fun featureCoordsLoop ::
  "DatabaseConfig \<Rightarrow> ProgramDatabase \<Rightarrow> Program \<Rightarrow> string list \<Rightarrow> featureStats
   \<Rightarrow> jsnum list \<times> featureStats" where
  "featureCoordsLoop cfg db program [] fs = ([], fs)"
| "featureCoordsLoop cfg db program (dimName # dimNames) fs =
     (case valueTobin fs dimName (Num (featureValue cfg db program dimName))
             (binsFor db dimName) of
        (binIdx, fs1) \<Rightarrow>
          (case featureCoordsLoop cfg db program dimNames fs1 of
             (coords, fs2) \<Rightarrow> (binIdx # coords, fs2)))"

definition calculateFeatureCoords ::
  "DatabaseConfig \<Rightarrow> ProgramDatabase \<Rightarrow> Program \<Rightarrow> jsnum list \<times> featureStats" where
  "calculateFeatureCoords cfg db program =
     featureCoordsLoop cfg db program (featureDimensions cfg) (featureStats db)"

text \<open>\<open>coords.join(',')\<close>: the coordinates as JavaScript prints them, separated by
  commas. A coordinate is a bin, which is \<open>NaN\<close>, an infinity or an integer (lemma
  \<open>valueTobin_integral\<close>); an integer is printed as its decimal numeral. The digits
  after the point of a number that is not an integer, and the exponent notation of the
  integers from \<open>10 ^ 21\<close> on, are not part of the model.\<close>

fun natToString :: "nat \<Rightarrow> string" where
  "natToString n =
     (if n < 10 then [''0123456789'' ! n]
      else natToString (n div 10) @ [''0123456789'' ! (n mod 10)])"

declare natToString.simps [simp del]

definition intToString :: "int \<Rightarrow> string" where
  "intToString i = (if i < 0 then CHR ''-'' # natToString (nat (- i))
                    else natToString (nat i))"

fun numberToString :: "jsnum \<Rightarrow> string" where
  "numberToString NaN = ''NaN''"
| "numberToString PosInf = ''Infinity''"
| "numberToString NegInf = ''-Infinity''"
| "numberToString (Num x) = intToString \<lfloor>x\<rfloor>"

fun joinComma :: "string list \<Rightarrow> string" where
  "joinComma [] = []"
| "joinComma [x] = x"
| "joinComma (x # y # zs) = x @ '','' @ joinComma (y # zs)"

definition featureCoordsToKey :: "jsnum list \<Rightarrow> string" where
  "featureCoordsToKey coords = joinComma (map numberToString coords)"

text \<open>The island an added program goes to, before the index is reduced modulo the
  number of islands.\<close>

definition targetIslandIndex :: "ProgramDatabase \<Rightarrow> Program \<Rightarrow> nat option \<Rightarrow> nat" where
  "targetIslandIndex db program targetIsland =
     (case targetIsland of
        Some t \<Rightarrow> t
      | None \<Rightarrow>
          (case parentId program of
             None \<Rightarrow> currentIsland db
           | Some parentKey \<Rightarrow>
               if parentKey = [] then currentIsland db
               else (case map_of (programs db) parentKey of
                       None \<Rightarrow> currentIsland db
                     | Some parent \<Rightarrow>
                         (case metadataIsland db (metadata parent) of
                            None \<Rightarrow> currentIsland db
                          | Some island \<Rightarrow> island))))"

text \<open>Lines 100 to 110 of \<open>add\<close>: whether the cell takes the incoming program.\<close>

definition shouldReplace ::
  "DatabaseConfig \<Rightarrow> ProgramDatabase \<Rightarrow> (string \<times> string) list \<Rightarrow> string \<Rightarrow> Program \<Rightarrow> bool"
  where
  "shouldReplace cfg db islandFeatureMap featureKey program =
     (case map_of islandFeatureMap featureKey of
        None \<Rightarrow> True
      | Some existingProgramId \<Rightarrow>
          (case map_of (programs db) existingProgramId of
             None \<Rightarrow> True
           | Some existingProgram \<Rightarrow> isBetter cfg program existingProgram))"

text \<open>Lines 112 to 122 of \<open>add\<close>.\<close>

definition placeInCell ::
  "DatabaseConfig \<Rightarrow> nat \<Rightarrow> string \<Rightarrow> Program \<Rightarrow> ProgramDatabase \<Rightarrow> ProgramDatabase" where
  "placeInCell cfg islandIdx featureKey program db =
     (let islandFeatureMap = islandFeatureMaps db ! islandIdx
      in if shouldReplace cfg db islandFeatureMap featureKey program then
           (let db1 =
                  (case map_of islandFeatureMap featureKey of
                     None \<Rightarrow> db
                   | Some existingProgramId \<Rightarrow>
                       if existingProgramId = [] then db
                       else db\<lparr>islands := (islands db)
                                  [islandIdx := setDelete existingProgramId
                                                  (islands db ! islandIdx)],
                               archive :=
                                 (if existingProgramId \<in> set (archive db)
                                  then setAdd (pid program)
                                         (setDelete existingProgramId (archive db))
                                  else archive db)\<rparr>)
            in db1\<lparr>islandFeatureMaps := (islandFeatureMaps db1)
                      [islandIdx := AList.update featureKey (pid program) islandFeatureMap]\<rparr>)
         else db)"

text \<open>\<open>xs.sort((a, b) => f(a) - f(b))\<close> is the stable sort by ascending \<open>f\<close>, and with the
  operands exchanged the stable sort by descending \<open>f\<close>.\<close>

definition sortAscending :: "DatabaseConfig \<Rightarrow> Program list \<Rightarrow> Program list" where
  "sortAscending cfg ps = sort_key (fitness cfg) ps"

definition sortDescending :: "DatabaseConfig \<Rightarrow> Program list \<Rightarrow> Program list" where
  "sortDescending cfg ps = sort_key (\<lambda>p. - fitness cfg p) ps"

text \<open>\<open>ids.map((id) => this.programs.get(id)!).filter(Boolean)\<close>\<close>

definition lookupAll :: "ProgramDatabase \<Rightarrow> string list \<Rightarrow> Program list" where
  "lookupAll db ids = List.map_filter (map_of (programs db)) ids"

definition updateArchive :: "DatabaseConfig \<Rightarrow> Program \<Rightarrow> ProgramDatabase \<Rightarrow> ProgramDatabase"
  where
  "updateArchive cfg program db =
     (if length (archive db) < archiveSize cfg then
        db\<lparr>archive := setAdd (pid program) (archive db)\<rparr>
      else
        (case sortAscending cfg (lookupAll db (archive db)) of
           [] \<Rightarrow> db
         | worst # rest \<Rightarrow>
             if isBetter cfg program worst then
               db\<lparr>archive := setAdd (pid program) (setDelete (pid worst) (archive db))\<rparr>
             else db))"

definition updateBestProgram ::
  "DatabaseConfig \<Rightarrow> Program \<Rightarrow> ProgramDatabase \<Rightarrow> ProgramDatabase" where
  "updateBestProgram cfg program db =
     (case bestProgramId db of
        None \<Rightarrow> db\<lparr>bestProgramId := Some (pid program)\<rparr>
      | Some best \<Rightarrow>
          if best = [] then db\<lparr>bestProgramId := Some (pid program)\<rparr>
          else (case map_of (programs db) best of
                  None \<Rightarrow> db\<lparr>bestProgramId := Some (pid program)\<rparr>
                | Some currentBest \<Rightarrow>
                    if isBetter cfg program currentBest
                    then db\<lparr>bestProgramId := Some (pid program)\<rparr> else db))"

text \<open>An index past the end of \<open>islandBestPrograms\<close> reads \<open>undefined\<close>; writing there
  would extend the array, which the model, whose caller passes an index below the number
  of islands, does not follow.\<close>

definition updateIslandBestProgram ::
  "DatabaseConfig \<Rightarrow> Program \<Rightarrow> nat \<Rightarrow> ProgramDatabase \<Rightarrow> ProgramDatabase" where
  "updateIslandBestProgram cfg program islandIdx db =
     (let currentBestId = (if islandIdx < length (islandBestPrograms db)
                           then islandBestPrograms db ! islandIdx else None);
          taken = db\<lparr>islandBestPrograms :=
                       (islandBestPrograms db)[islandIdx := Some (pid program)]\<rparr>
      in case currentBestId of
           None \<Rightarrow> taken
         | Some best \<Rightarrow>
             if best = [] then taken
             else (case map_of (programs db) best of
                     None \<Rightarrow> taken
                   | Some currentBest \<Rightarrow>
                       if isBetter cfg program currentBest then taken else db))"

text \<open>The loop of \<open>enforcePopulationLimit\<close> over the programs to remove. An island
  index that is not an index of \<open>islands\<close> makes \<open>this.islands[island].delete\<close> raise.\<close>

fun removePrograms :: "Program list \<Rightarrow> ProgramDatabase \<Rightarrow> db_error + ProgramDatabase" where
  "removePrograms [] db = Inr db"
| "removePrograms (program # rest) db =
     (let db1 = db\<lparr>programs := AList.delete (pid program) (programs db)\<rparr>
      in case metadataIsland db1 (metadata program) of
           None \<Rightarrow>
             removePrograms rest (db1\<lparr>archive := setDelete (pid program) (archive db1)\<rparr>)
         | Some island \<Rightarrow>
             if island < length (islands db1) then
               removePrograms rest
                 (db1\<lparr>islands := (islands db1)
                         [island := setDelete (pid program) (islands db1 ! island)],
                      archive := setDelete (pid program) (archive db1)\<rparr>)
             else Inl TypeError)"

definition enforcePopulationLimit ::
  "DatabaseConfig \<Rightarrow> string option \<Rightarrow> ProgramDatabase \<Rightarrow> db_error + ProgramDatabase" where
  "enforcePopulationLimit cfg excludeProgramId db =
     (if length (programs db) \<le> populationSize cfg then Inr db
      else
        (let sorted = sortAscending cfg
                        (filter (\<lambda>p. Some (pid p) \<noteq> excludeProgramId)
                           (map snd (programs db)));
             toRemove = take (length (programs db) - populationSize cfg) sorted
         in removePrograms toRemove db))"

text \<open>Lines 69 to 75 of \<open>add\<close>: the iteration is stamped on the program, and the
  program is stored in the table.\<close>

definition stampIteration :: "Program \<Rightarrow> nat option \<Rightarrow> Program" where
  "stampIteration program iterationArg =
     (case iterationArg of
        Some it \<Rightarrow> program\<lparr>iterationFound := it\<rparr>
      | None \<Rightarrow> program)"

definition storeProgram :: "Program \<Rightarrow> nat option \<Rightarrow> ProgramDatabase \<Rightarrow> ProgramDatabase" where
  "storeProgram program iterationArg db =
     (let db1 = (case iterationArg of
                   Some it \<Rightarrow> db\<lparr>lastIteration := max (lastIteration db) it\<rparr>
                 | None \<Rightarrow> db)
      in db1\<lparr>programs := AList.update (pid program) program (programs db1)\<rparr>)"

text \<open>Lines 97 to 129 of \<open>add\<close>: the cell, the island's resident set, the program's
  \<open>metadata.island\<close> and the archive.\<close>

definition settleOnIsland ::
  "DatabaseConfig \<Rightarrow> Program \<Rightarrow> nat \<Rightarrow> string \<Rightarrow> ProgramDatabase \<Rightarrow> ProgramDatabase" where
  "settleOnIsland cfg program islandIdx featureKey db =
     (let db4 = placeInCell cfg islandIdx featureKey program db;
          db5 = db4\<lparr>islands := (islands db4)
                      [islandIdx := setAdd (pid program) (islands db4 ! islandIdx)],
                    metadataIsland := (metadataIsland db4)(metadata program \<mapsto> islandIdx)\<rparr>
      in updateArchive cfg program db5)"

text \<open>
  \<open>add(program, iteration?, targetIsland?)\<close>. With no islands the index is \<open>NaN\<close>, and
  an index without a feature map reads \<open>undefined\<close>; the call of \<open>has\<close> on it raises.
\<close>

definition add ::
  "DatabaseConfig \<Rightarrow> Program \<Rightarrow> nat option \<Rightarrow> nat option \<Rightarrow> ProgramDatabase
   \<Rightarrow> db_error + ProgramDatabase" where
  "add cfg program0 iterationArg targetIsland db0 =
     (let program = stampIteration program0 iterationArg;
          db2 = storeProgram program iterationArg db0
      in case calculateFeatureCoords cfg db2 program of
           (featureCoords, stats) \<Rightarrow>
             (let db3 = db2\<lparr>featureStats := stats\<rparr>;
                  islandIdx0 = targetIslandIndex db3 program targetIsland
              in if length (islands db3) = 0 then Inl TypeError
                 else
                   (let islandIdx = islandIdx0 mod length (islands db3)
                    in if islandIdx \<ge> length (islandFeatureMaps db3) then Inl TypeError
                       else
                         (case enforcePopulationLimit cfg (Some (pid program))
                                 (settleOnIsland cfg program islandIdx
                                    (featureCoordsToKey featureCoords) db3) of
                            Inl e \<Rightarrow> Inl e
                          | Inr db7 \<Rightarrow>
                              Inr (updateIslandBestProgram cfg program islandIdx
                                     (updateBestProgram cfg program db7))))))"

text \<open>The island and the feature key \<open>add\<close> computes for a program.\<close>

definition addIsland :: "ProgramDatabase \<Rightarrow> Program \<Rightarrow> nat option \<Rightarrow> nat option \<Rightarrow> nat" where
  "addIsland db0 program0 iterationArg targetIsland =
     (let program = stampIteration program0 iterationArg
      in targetIslandIndex (storeProgram program iterationArg db0) program targetIsland
           mod length (islands db0))"

definition addFeatureKey ::
  "DatabaseConfig \<Rightarrow> ProgramDatabase \<Rightarrow> Program \<Rightarrow> nat option \<Rightarrow> string" where
  "addFeatureKey cfg db0 program0 iterationArg =
     (let program = stampIteration program0 iterationArg
      in featureCoordsToKey
           (fst (calculateFeatureCoords cfg (storeProgram program iterationArg db0) program)))"

text \<open>The identifiers of the program table, the identifiers stored in the cells of any
  island, and both together.\<close>

definition programIds :: "ProgramDatabase \<Rightarrow> string set" where
  "programIds db = fst ` set (programs db)"

definition cellIds :: "ProgramDatabase \<Rightarrow> string set" where
  "cellIds db = (\<Union>fm \<in> set (islandFeatureMaps db). snd ` set fm)"

definition usedIds :: "ProgramDatabase \<Rightarrow> string set" where
  "usedIds db = programIds db \<union> cellIds db"

text \<open>
  The invariant of the cell maps: every island has a cell map; a cell map holds one
  identifier for a feature key and an identifier under one key only; an identifier
  stored in a cell that is still in the program table is a resident of the island.
\<close>

definition cellInvariant :: "ProgramDatabase \<Rightarrow> bool" where
  "cellInvariant db \<longleftrightarrow>
     length (islandFeatureMaps db) = length (islands db)
     \<and> (\<forall>k < length (islands db).
          distinct (map fst (islandFeatureMaps db ! k))
          \<and> distinct (map snd (islandFeatureMaps db ! k))
          \<and> (\<forall>(featureKey, i) \<in> set (islandFeatureMaps db ! k).
                i \<in> programIds db \<longrightarrow> i \<in> set (islands db ! k)))"

text \<open>
  \<open>migratePrograms\<close>. The identifiers \<open>uuidv4()\<close> returns are \<open>uuid n\<close>, \<open>uuid (n + 1)\<close>,
  ... in the order of the calls; the functions return the number of the next one with
  the database. \<open>{ ...migrant, id: uuidv4() }\<close> copies the migrant's fields, among them
  the reference to its metadata object.
\<close>

fun migrateInto ::
  "DatabaseConfig \<Rightarrow> (nat \<Rightarrow> string) \<Rightarrow> nat \<Rightarrow> Program list \<Rightarrow> nat \<Rightarrow> ProgramDatabase
   \<Rightarrow> db_error + (ProgramDatabase \<times> nat)" where
  "migrateInto cfg uuid n [] targetIsland db = Inr (db, n)"
| "migrateInto cfg uuid n (migrant # rest) targetIsland db =
     (case add cfg (migrant\<lparr>pid := uuid n\<rparr>) None (Some targetIsland) db of
        Inl e \<Rightarrow> Inl e
      | Inr db1 \<Rightarrow> migrateInto cfg uuid (n + 1) rest targetIsland db1)"

definition numMigrants :: "DatabaseConfig \<Rightarrow> int" where
  "numMigrants cfg = \<lfloor>real (populationSize cfg) * migrationRate cfg\<rfloor>"

fun migrateIslands ::
  "DatabaseConfig \<Rightarrow> (nat \<Rightarrow> string) \<Rightarrow> nat list \<Rightarrow> nat \<Rightarrow> ProgramDatabase
   \<Rightarrow> db_error + (ProgramDatabase \<times> nat)" where
  "migrateIslands cfg uuid [] n db = Inr (db, n)"
| "migrateIslands cfg uuid (i # rest) n db =
     (let sourcePrograms = islands db ! i
      in if length sourcePrograms = 0 then migrateIslands cfg uuid rest n db
         else
           (let migrants = slice0 (numMigrants cfg)
                             (sortDescending cfg (lookupAll db sourcePrograms))
            in case migrateInto cfg uuid n migrants ((i + 1) mod length (islands db)) db of
                 Inl e \<Rightarrow> Inl e
               | Inr (db1, n1) \<Rightarrow> migrateIslands cfg uuid rest n1 db1))"

definition migratePrograms ::
  "DatabaseConfig \<Rightarrow> (nat \<Rightarrow> string) \<Rightarrow> nat \<Rightarrow> ProgramDatabase
   \<Rightarrow> db_error + (ProgramDatabase \<times> nat)" where
  "migratePrograms cfg uuid n db =
     (case migrateIslands cfg uuid [0..<length (islands db)] n db of
        Inl e \<Rightarrow> Inl e
      | Inr (db1, n1) \<Rightarrow>
          Inr (db1\<lparr>lastMigrationGeneration :=
                      fold (\<lambda>g m. min (enat g) m) (islandGenerations db1) \<infinity>\<rparr>, n1))"

text \<open>
  The invariant of the metadata objects: the \<open>island\<close> field of every program in the
  table is the index of an island. It is what keeps \<open>enforcePopulationLimit\<close> from
  raising.
\<close>

definition metadataInvariant :: "ProgramDatabase \<Rightarrow> bool" where
  "metadataInvariant db \<longleftrightarrow>
     (\<forall>(i, program) \<in> set (programs db).
        \<exists>island < length (islands db). metadataIsland db (metadata program) = Some island)"

text \<open>
  Sampling. The calls of \<open>Math.random()\<close> are an argument: \<open>randVal\<close> is the first
  draw of \<open>sampleFromIsland\<close>, \<open>pick\<close> the draw of the sampler it calls, and
  \<open>shuffled xs\<close> the array that \<open>[...xs].sort(() => Math.random() - 0.5)\<close> produces.
\<close>

record SampleDraws =
  randVal :: real
  pick :: real
  shuffled :: "string list \<Rightarrow> string list"

text \<open>\<open>this.programs.get(ids[Math.floor(r * ids.length)])\<close>\<close>

definition pickProgram :: "ProgramDatabase \<Rightarrow> string list \<Rightarrow> real \<Rightarrow> Program option" where
  "pickProgram db ids r =
     (let idx = \<lfloor>r * real (length ids)\<rfloor>
      in if 0 \<le> idx \<and> nat idx < length ids then map_of (programs db) (ids ! nat idx)
         else None)"

definition sampleFromIslandRandom :: "ProgramDatabase \<Rightarrow> nat \<Rightarrow> real \<Rightarrow> Program option" where
  "sampleFromIslandRandom db islandId r = pickProgram db (islands db ! islandId) r"

definition sampleFromArchiveForIsland :: "ProgramDatabase \<Rightarrow> nat \<Rightarrow> real \<Rightarrow> Program option"
  where
  "sampleFromArchiveForIsland db islandId r =
     (let islandArchive =
            filter (\<lambda>i. case map_of (programs db) i of
                          None \<Rightarrow> False
                        | Some program \<Rightarrow> metadataIsland db (metadata program) = Some islandId)
              (archive db)
      in if length islandArchive = 0 then sampleFromIslandRandom db islandId r
         else pickProgram db islandArchive r)"

fun weightedLoop :: "Program list \<Rightarrow> real list \<Rightarrow> real \<Rightarrow> real \<Rightarrow> Program option" where
  "weightedLoop (p # ps) (f # fs) rand cumulative =
     (if rand < cumulative + f then Some p else weightedLoop ps fs rand (cumulative + f))"
| "weightedLoop ps fs rand cumulative = None"

definition sampleFromIslandWeighted ::
  "DatabaseConfig \<Rightarrow> ProgramDatabase \<Rightarrow> nat \<Rightarrow> real \<Rightarrow> Program option" where
  "sampleFromIslandWeighted cfg db islandId r =
     (let islandPrograms = lookupAll db (islands db ! islandId);
          fitnesses = map (fitness cfg) islandPrograms;
          totalFitness = sum_list fitnesses
      in case weightedLoop islandPrograms fitnesses (r * totalFitness) 0 of
           Some p \<Rightarrow> Some p
         | None \<Rightarrow> if islandPrograms = [] then None else Some (last islandPrograms))"

text \<open>\<open>sampleFromIsland(islandId, numInspirations)\<close>. A parent that is not in the
  program table is \<open>undefined\<close>, and reading its \<open>id\<close> raises.\<close>

definition sampleFromIsland ::
  "DatabaseConfig \<Rightarrow> ProgramDatabase \<Rightarrow> nat \<Rightarrow> nat \<Rightarrow> SampleDraws
   \<Rightarrow> db_error + (Program \<times> Program list)" where
  "sampleFromIsland cfg db islandId0 numInspirations draws =
     (if length (islands db) = 0 then Inl TypeError
      else
        (let islandId = islandId0 mod length (islands db);
             islandPrograms = islands db ! islandId
         in if length islandPrograms = 0 then Inl (EmptyIsland islandId)
            else
              (case (if randVal draws < explorationRatio cfg
                       then sampleFromIslandRandom db islandId (pick draws)
                     else if randVal draws < explorationRatio cfg + exploitationRatio cfg
                       then sampleFromArchiveForIsland db islandId (pick draws)
                     else sampleFromIslandWeighted cfg db islandId (pick draws)) of
                 None \<Rightarrow> Inl TypeError
               | Some parent \<Rightarrow>
                   (let otherPrograms = filter (\<lambda>i. i \<noteq> pid parent) islandPrograms;
                        inspirationIds =
                          (if length otherPrograms \<le> numInspirations then otherPrograms
                           else take numInspirations (shuffled draws otherPrograms))
                    in Inr (parent, lookupAll db inspirationIds)))))"


definition cumulativeIndex :: "real list \<Rightarrow> real \<Rightarrow> nat \<Rightarrow> bool" where
  "cumulativeIndex ws r i \<longleftrightarrow>
     i < length ws \<and> r < sum_list (take (Suc i) ws)
     \<and> (\<forall>j<i. sum_list (take (Suc j) ws) \<le> r)"

text \<open>
  Examples. \<open>defaultDatabaseConfig\<close> is the \<open>database\<close> block of the default
  configuration; \<open>boundaryConfig\<close> is the same with a population of one program on one
  island. \<open>exampleProgram i s c a\<close> is a program with identifier \<open>i\<close>, combined score
  \<open>s\<close> and complexity \<open>c\<close> whose metadata object is at address \<open>a\<close>.
\<close>

definition defaultDatabaseConfig :: DatabaseConfig where
  "defaultDatabaseConfig =
     \<lparr>populationSize = 1000, archiveSize = 100, numIslands = 5, explorationRatio = 0.2,
      exploitationRatio = 0.7, featureDimensions = [''complexity'', ''diversity''],
      featureBins = BinsNumber 10, migrationInterval = 50, migrationRate = 0.1\<rparr>"

definition boundaryConfig :: DatabaseConfig where
  "boundaryConfig = defaultDatabaseConfig\<lparr>populationSize := 1, numIslands := 1\<rparr>"

definition exampleProgram :: "string \<Rightarrow> real \<Rightarrow> real \<Rightarrow> nat \<Rightarrow> Program" where
  "exampleProgram i s c a =
     \<lparr>pid = i, code = ''x'', language = ''python'', parentId = None, generation = 0,
      timestamp = 0, iterationFound = 0, metrics = [(''combined_score'', s)],
      complexity = c, diversity = 0, metadata = a\<rparr>"

text \<open>The boundary database after \<open>add(p1, 0, 0)\<close>, where \<open>p1\<close> has score 1 and
  complexity 10.\<close>

definition dbAfterP1 :: ProgramDatabase where
  "dbAfterP1 =
     \<lparr>programs = [(''p1'', exampleProgram ''p1'' 1 10 1)],
      islands = [[''p1'']],
      islandFeatureMaps = [[(''0,0'', ''p1'')]],
      archive = [''p1''],
      bestProgramId = Some ''p1'',
      islandBestPrograms = [Some ''p1''],
      currentIsland = 0,
      islandGenerations = [0],
      lastMigrationGeneration = 0,
      lastIteration = 0,
      diversityReferenceSet = [],
      featureStats = [''complexity'' \<mapsto> \<lparr>fmin = Num 10, fmax = Num 10, fvalues = [Num 10]\<rparr>,
                      ''diversity'' \<mapsto> \<lparr>fmin = Num 0, fmax = Num 0, fvalues = [Num 0]\<rparr>],
      featureBinsPerDim = [(''complexity'', 10), (''diversity'', 10)],
      metadataIsland = [1 \<mapsto> 0]\<rparr>"

text \<open>Then after \<open>add(p2, 1, 0)\<close>, where \<open>p2\<close> has score 2 and complexity 20: the
  population limit has removed \<open>p1\<close>.\<close>

definition dbAfterP2 :: ProgramDatabase where
  "dbAfterP2 =
     \<lparr>programs = [(''p2'', (exampleProgram ''p2'' 2 20 2)\<lparr>iterationFound := 1\<rparr>)],
      islands = [[''p2'']],
      islandFeatureMaps = [[(''0,0'', ''p1''), (''9,0'', ''p2'')]],
      archive = [''p2''],
      bestProgramId = Some ''p2'',
      islandBestPrograms = [Some ''p2''],
      currentIsland = 0,
      islandGenerations = [0],
      lastMigrationGeneration = 0,
      lastIteration = 1,
      diversityReferenceSet = [],
      featureStats = [''complexity'' \<mapsto> \<lparr>fmin = Num 10, fmax = Num 20,
                                           fvalues = [Num 10, Num 20]\<rparr>,
                      ''diversity'' \<mapsto> \<lparr>fmin = Num 0, fmax = Num 0,
                                          fvalues = [Num 0, Num 0]\<rparr>],
      featureBinsPerDim = [(''complexity'', 10), (''diversity'', 10)],
      metadataIsland = [1 \<mapsto> 0, 2 \<mapsto> 0]\<rparr>"

text \<open>The default database after \<open>add(p1, 0, 0)\<close> and \<open>add(p2, 1, 0)\<close>, where \<open>p1\<close> has
  score 3 and complexity 10 and \<open>p2\<close> score 1 and complexity 20.\<close>

definition dbTwoResidents :: ProgramDatabase where
  "dbTwoResidents =
     \<lparr>programs = [(''p1'', exampleProgram ''p1'' 3 10 1),
                  (''p2'', (exampleProgram ''p2'' 1 20 2)\<lparr>iterationFound := 1\<rparr>)],
      islands = [[''p1'', ''p2''], [], [], [], []],
      islandFeatureMaps = [[(''0,0'', ''p1''), (''9,0'', ''p2'')], [], [], [], []],
      archive = [''p1'', ''p2''],
      bestProgramId = Some ''p1'',
      islandBestPrograms = [Some ''p1'', None, None, None, None],
      currentIsland = 0,
      islandGenerations = [0, 0, 0, 0, 0],
      lastMigrationGeneration = 0,
      lastIteration = 1,
      diversityReferenceSet = [],
      featureStats = [''complexity'' \<mapsto> \<lparr>fmin = Num 10, fmax = Num 20,
                                           fvalues = [Num 10, Num 20]\<rparr>,
                      ''diversity'' \<mapsto> \<lparr>fmin = Num 0, fmax = Num 0,
                                          fvalues = [Num 0, Num 0]\<rparr>],
      featureBinsPerDim = [(''complexity'', 10), (''diversity'', 10)],
      metadataIsland = [1 \<mapsto> 0, 2 \<mapsto> 0]\<rparr>"

text \<open>
  The database states that can be reached from a new database by \<open>add\<close>,
  \<open>migratePrograms\<close> and \<open>enforcePopulationLimit\<close>, when identifiers are never used
  twice, as those of \<open>uuidv4\<close> are: an added program's identifier is neither in the
  program table nor in a cell, and the identifiers a migration draws are new and
  different from each other.
\<close>

inductive reachable :: "DatabaseConfig \<Rightarrow> ProgramDatabase \<Rightarrow> bool" for cfg where
  reachable_new: "reachable cfg (ProgramDatabase_new cfg heap)"
| reachable_add:
    "reachable cfg db \<Longrightarrow> pid program \<notin> usedIds db
     \<Longrightarrow> add cfg program iterationArg targetIsland db = Inr db'
     \<Longrightarrow> reachable cfg db'"
| reachable_migrate:
    "reachable cfg db \<Longrightarrow> \<forall>m \<ge> n. uuid m \<notin> usedIds db \<Longrightarrow> inj_on uuid {n..}
     \<Longrightarrow> migratePrograms cfg uuid n db = Inr (db', n')
     \<Longrightarrow> reachable cfg db'"
| reachable_enforce:
    "reachable cfg db \<Longrightarrow> enforcePopulationLimit cfg excludeProgramId db = Inr db'
     \<Longrightarrow> reachable cfg db'"

section \<open>Properties of the sampling policy\<close>

lemma floor_le_max: "(0.05::real) \<le> max 0.05 a"
  by (rule max.cobounded1)

lemma flooredTotal_ge: "0.15 \<le> flooredTotal p"
proof -
  have "(0.15::real) = 0.05 + 0.05 + 0.05" by simp
  then show ?thesis
    unfolding flooredTotal_def
    using floor_le_max [of "exploreProb p"] floor_le_max [of "exploitProb p"]
      floor_le_max [of "backtrackProb p"]
    by linarith
qed

lemma flooredTotal_pos: "0 < flooredTotal p"
proof -
  have "(0::real) < 0.15" by simp
  then show ?thesis using flooredTotal_ge [of p] by linarith
qed

lemma normalize_fields:
  "exploreProb (normalize p) = max 0.05 (exploreProb p) / flooredTotal p"
  "exploitProb (normalize p) = max 0.05 (exploitProb p) / flooredTotal p"
  "backtrackProb (normalize p) = max 0.05 (backtrackProb p) / flooredTotal p"
  by (simp_all add: normalize_def flooredTotal_def Let_def)

lemma normalize_sums_to_one: "sums_to_one (normalize p)"
proof -
  have "flooredTotal p / flooredTotal p = 1"
    using flooredTotal_pos [of p] by simp
  then have "(max 0.05 (exploreProb p) + max 0.05 (exploitProb p)
               + max 0.05 (backtrackProb p)) / flooredTotal p = 1"
    by (simp only: flooredTotal_def)
  then show ?thesis
    by (simp only: sums_to_one_def normalize_fields add_divide_distrib)
qed

lemma normalize_each_at_least: "each_at_least (0.05 / flooredTotal p) (normalize p)"
  unfolding each_at_least_def normalize_fields
  using flooredTotal_pos [of p] floor_le_max
  by (simp only: divide_right_mono less_imp_le)

lemma each_at_least_mono: "c \<le> d \<Longrightarrow> each_at_least d p \<Longrightarrow> each_at_least c p"
  unfolding each_at_least_def by linarith

lemma normalize_floor_kept:
  assumes "flooredTotal p \<le> 1"
  shows "each_at_least 0.05 (normalize p)"
proof -
  have pos: "0 < flooredTotal p" by (rule flooredTotal_pos)
  have "(0.05::real) * flooredTotal p \<le> 0.05 * 1"
    using assms by (intro mult_left_mono) simp_all
  then have "0.05 \<le> 0.05 / flooredTotal p"
    using pos by (simp add: le_divide_eq)
  then show ?thesis
    using normalize_each_at_least [of p] each_at_least_mono by blast
qed

lemma normalize_positive: "each_at_least (0.05 / flooredTotal p) q \<Longrightarrow>
  0 < exploreProb q \<and> 0 < exploitProb q \<and> 0 < backtrackProb q"
proof -
  assume a: "each_at_least (0.05 / flooredTotal p) q"
  have "0 < 0.05 / flooredTotal p"
    using flooredTotal_pos [of p] by simp
  then show ?thesis
    using a unfolding each_at_least_def by linarith
qed

text \<open>
  Claim C3, as the code has it. After construction and after every call of \<open>update\<close> the
  three probabilities sum to 1 (in exact arithmetic), and each of them is at least 0.05
  divided by the floored total \<open>T\<close> that \<open>normalize\<close> divides by, hence positive. Each is
  at least 0.05 itself when \<open>T \<le> 1\<close>; the floor is applied before the division and is
  not restored after it.
\<close>

theorem policy_probabilities_normalized:
  "sums_to_one (policy_new cfg)
   \<and> each_at_least (0.05 / flooredTotal (policy_initial cfg)) (policy_new cfg)
   \<and> 0 < 0.05 / flooredTotal (policy_initial cfg)
   \<and> (flooredTotal (policy_initial cfg) \<le> 1 \<longrightarrow> each_at_least 0.05 (policy_new cfg))
   \<and> sums_to_one (policy_update cfg progress absoluteProgress peerBest p)
   \<and> each_at_least
        (0.05 / flooredTotal (policy_adjust cfg progress absoluteProgress peerBest p))
        (policy_update cfg progress absoluteProgress peerBest p)
   \<and> 0 < 0.05 / flooredTotal (policy_adjust cfg progress absoluteProgress peerBest p)
   \<and> (flooredTotal (policy_adjust cfg progress absoluteProgress peerBest p) \<le> 1 \<longrightarrow>
        each_at_least 0.05 (policy_update cfg progress absoluteProgress peerBest p))"
proof -
  have pos: "0 < 0.05 / flooredTotal q" for q
    using flooredTotal_pos [of q] by simp
  show ?thesis
    unfolding policy_new_def policy_update_def
    using normalize_sums_to_one normalize_each_at_least normalize_floor_kept pos
    by blast
qed

theorem policy_probabilities_normalized_witness:
  "flooredTotal (policy_initial defaultPACEvolveConfig) \<le> 1
   \<and> each_at_least 0.05 (policy_new defaultPACEvolveConfig)
   \<and> flooredTotal (policy_adjust defaultPACEvolveConfig risingProgress None None
        (policy_new defaultPACEvolveConfig)) \<le> 1
   \<and> each_at_least 0.05 (policy_update defaultPACEvolveConfig risingProgress None None
        (policy_new defaultPACEvolveConfig))"
proof -
  have new: "policy_new defaultPACEvolveConfig
               = \<lparr>exploreProb = 3 / 10, exploitProb = 1 / 2, backtrackProb = 1 / 5\<rparr>"
    by (simp add: policy_new_def policy_initial_def normalize_def defaultPACEvolveConfig_def
        Let_def)
  have rate: "adaptationRate defaultPACEvolveConfig = 1 / 10"
    by (simp add: defaultPACEvolveConfig_def)
  have t0: "flooredTotal (policy_initial defaultPACEvolveConfig) \<le> 1"
    by (simp add: flooredTotal_def policy_initial_def defaultPACEvolveConfig_def)
  have t1: "flooredTotal (policy_adjust defaultPACEvolveConfig risingProgress None None
              (policy_new defaultPACEvolveConfig)) \<le> 1"
    by (simp add: new rate flooredTotal_def policy_adjust_def risingProgress_def Let_def)
  show ?thesis
    using t0 t1
      policy_probabilities_normalized [of defaultPACEvolveConfig risingProgress None None
        "policy_new defaultPACEvolveConfig"]
    by blast
qed

text \<open>
  Claim C3 as stated fails. With the default configuration the policy is built as
  (0.3, 0.5, 0.2); four updates with momentum 0.02 give (0.1, 0.9, 0) before the last
  \<open>normalize\<close>, which floors the backtrack probability to 0.05 and divides by 1.05:
  the result is 1/21, below 0.05.
\<close>

theorem policy_floor_counterexample:
  "\<not> each_at_least 0.05
     (policy_update defaultPACEvolveConfig risingProgress None None
       (policy_update defaultPACEvolveConfig risingProgress None None
         (policy_update defaultPACEvolveConfig risingProgress None None
           (policy_update defaultPACEvolveConfig risingProgress None None
             (policy_new defaultPACEvolveConfig)))))"
  by (simp add: each_at_least_def policy_new_def policy_initial_def policy_update_def
      policy_adjust_def normalize_def defaultPACEvolveConfig_def risingProgress_def Let_def)

section \<open>Properties of the value-to-bin conversion\<close>

subsection \<open>Rounding\<close>

lemma roundHalfEven_of_int [simp]: "roundHalfEven (of_int i) = i"
  by (simp add: roundHalfEven_def)

lemma roundHalfEven_ge: "of_int k \<le> x \<Longrightarrow> k \<le> roundHalfEven x"
proof -
  assume "of_int k \<le> x"
  then have "k \<le> \<lfloor>x\<rfloor>" by (simp add: le_floor_iff)
  moreover have "\<lfloor>x\<rfloor> \<le> roundHalfEven x" by (simp add: roundHalfEven_def Let_def)
  ultimately show ?thesis by linarith
qed

lemma roundHalfEven_le: "x \<le> of_int k \<Longrightarrow> roundHalfEven x \<le> k"
proof -
  assume h: "x \<le> of_int k"
  show ?thesis
  proof (cases "x = of_int \<lfloor>x\<rfloor>")
    case True
    then have "roundHalfEven x = \<lfloor>x\<rfloor>" by (metis roundHalfEven_of_int)
    moreover have "\<lfloor>x\<rfloor> \<le> k" using h by (simp add: floor_le_iff)
    ultimately show ?thesis by simp
  next
    case False
    then have "of_int \<lfloor>x\<rfloor> < x" using of_int_floor_le [of x] by linarith
    then have "of_int \<lfloor>x\<rfloor> < (of_int k :: real)" using h by linarith
    then have "\<lfloor>x\<rfloor> < k" by simp
    moreover have "roundHalfEven x \<le> \<lfloor>x\<rfloor> + 1" by (simp add: roundHalfEven_def Let_def)
    ultimately show ?thesis by linarith
  qed
qed

lemma two_powr_of_int: "(2::real) powr real_of_int n = 2 powi n"
  by (simp add: powr_real_of_int')

lemma floor_log2_bounds:
  assumes "0 < x"
  shows "2 powi \<lfloor>log 2 x\<rfloor> \<le> x" and "x < 2 powi (\<lfloor>log 2 x\<rfloor> + 1)"
proof -
  have "2 powr real_of_int \<lfloor>log 2 x\<rfloor> \<le> x \<and> x < 2 powr real_of_int (\<lfloor>log 2 x\<rfloor> + 1)"
    using floor_log_eq_powr_iff [of x 2 "\<lfloor>log 2 x\<rfloor>"] assms by simp
  then show "2 powi \<lfloor>log 2 x\<rfloor> \<le> x" and "x < 2 powi (\<lfloor>log 2 x\<rfloor> + 1)"
    unfolding two_powr_of_int by simp_all
qed

lemma floor_log2_eq:
  assumes "2 powi k \<le> x" "x < 2 powi (k + 1)"
  shows "\<lfloor>log 2 x\<rfloor> = k"
proof -
  have "0 < (2::real) powi k" by (simp add: zero_less_power_int)
  then have "0 < x" using assms by linarith
  then have "(\<lfloor>log 2 x\<rfloor> = k) = (2 powr real_of_int k \<le> x \<and> x < 2 powr real_of_int (k + 1))"
    by (rule floor_log_eq_powr_iff) simp
  then show ?thesis unfolding two_powr_of_int using assms by simp
qed

lemma floor_log2_mono:
  assumes "0 < x" "x \<le> y"
  shows "\<lfloor>log 2 x\<rfloor> \<le> \<lfloor>log 2 y\<rfloor>"
  by (rule floor_mono) (use assms in \<open>simp add: log_mono\<close>)

lemma floor_log2_ge:
  assumes "2 ^ n \<le> x"
  shows "int n \<le> \<lfloor>log 2 x\<rfloor>"
proof -
  have "\<lfloor>log 2 ((2::real) ^ n)\<rfloor> \<le> \<lfloor>log 2 x\<rfloor>"
    using assms by (intro floor_log2_mono) simp_all
  then show ?thesis by simp
qed

lemma overflowThreshold_powi: "overflowThreshold = 2 powi 1024"
  unfolding overflowThreshold_def by (simp only: power_int_numeral)

lemma overflowThreshold_pos: "0 < overflowThreshold"
  unfolding overflowThreshold_def by (rule zero_less_power) simp

lemma below_overflowThreshold: "x < 2 ^ 53 \<Longrightarrow> x < overflowThreshold"
proof -
  assume "x < 2 ^ 53"
  moreover have "(2::real) ^ 53 \<le> 2 ^ 1024" by (rule power_increasing) simp_all
  ultimately show ?thesis unfolding overflowThreshold_def by linarith
qed

text \<open>An integer multiple of the unit in the last place is not rounded.\<close>

lemma roundDouble_exact:
  assumes "x \<noteq> 0" "x = of_int n * 2 powi ulpExponent x" "\<bar>x\<bar> < overflowThreshold"
  shows "roundDouble x = Num x"
proof -
  have p: "(2::real) powi ulpExponent x \<noteq> 0" by simp
  have "x / 2 powi ulpExponent x = of_int n"
    using assms(2) p by (metis nonzero_mult_div_cancel_right)
  then show ?thesis using assms by (simp add: roundDouble_def Let_def)
qed

lemma roundDouble_of_int:
  assumes "\<bar>i\<bar> < 2 ^ 53"
  shows "roundDouble (of_int i) = Num (of_int i)"
proof (cases "i = 0")
  case True
  then show ?thesis by (simp add: roundDouble_def)
next
  case False
  let ?x = "real_of_int i"
  let ?L = "\<lfloor>log 2 \<bar>?x\<bar>\<rfloor>"
  have one: "1 \<le> \<bar>?x\<bar>" using False by (simp flip: of_int_abs)
  have lt: "\<bar>?x\<bar> < 2 ^ 53" using assms by (simp flip: of_int_abs)
  have "\<lfloor>log 2 (1::real)\<rfloor> \<le> ?L" using one by (intro floor_log2_mono) simp_all
  then have L0: "0 \<le> ?L" by simp
  have "2 powi ?L \<le> \<bar>?x\<bar>" using floor_log2_bounds(1) [of "\<bar>?x\<bar>"] one by simp
  then have "(2::real) powi ?L < 2 powi 53" using lt by simp
  then have "?L < 53" by (rule power_int_le_imp_less_exp [rotated]) simp_all
  then have L52: "?L \<le> 52" by simp
  define m where "m = nat (52 - ?L)"
  have e: "ulpExponent ?x = - int m" using L0 L52 by (simp add: ulpExponent_def m_def)
  have "?x = of_int (i * 2 ^ m) * 2 powi ulpExponent ?x"
    by (simp add: e power_int_minus)
  moreover have "\<bar>?x\<bar> < overflowThreshold" using lt by (rule below_overflowThreshold)
  ultimately show ?thesis using False roundDouble_exact [of ?x "i * 2 ^ m"] by simp
qed


text \<open>A number of magnitude \<open>2 ^ 1024\<close> or more is rounded to an infinity, and a number
  that is not negative to a number that is not negative.\<close>

lemma roundDouble_overflow:
  assumes "overflowThreshold \<le> \<bar>x\<bar>"
  shows "roundDouble x = (if 0 < x then PosInf else NegInf)"
proof -
  let ?L = "\<lfloor>log 2 \<bar>x\<bar>\<rfloor>"
  let ?e = "ulpExponent x"
  let ?n = "roundHalfEven (x / 2 powi ?e)"
  define p :: int where "p = 52"
  define K :: int where "K = 2 ^ 52"
  have Kp: "real_of_int K = 2 powi p" by (simp add: K_def p_def)
  have K0: "0 \<le> K" by (simp add: K_def)
  have pos: "0 < \<bar>x\<bar>" using assms overflowThreshold_pos by linarith
  then have x0: "x \<noteq> 0" by simp
  have "int 1024 \<le> ?L" using assms unfolding overflowThreshold_def by (rule floor_log2_ge)
  then have L: "1024 \<le> ?L" by simp
  then have e: "?e = ?L - p" by (simp add: ulpExponent_def p_def)
  have pe: "0 < (2::real) powi ?e" by (simp add: zero_less_power_int)
  have "(2::real) powi (p + (?L - p)) = 2 powi p * 2 powi (?L - p)"
    by (rule power_int_add) simp
  then have split: "(2::real) powi ?L = real_of_int K * 2 powi ?e"
    unfolding e Kp by simp
  have low: "2 powi ?L \<le> \<bar>x\<bar>" using floor_log2_bounds(1) [OF pos] .
  then have q: "real_of_int K \<le> \<bar>x\<bar> / 2 powi ?e"
    using pe unfolding split by (simp add: pos_le_divide_eq)
  have n: "K \<le> \<bar>?n\<bar>"
  proof (cases "0 < x")
    case True
    then have "real_of_int K \<le> x / 2 powi ?e" using q by simp
    then have "K \<le> ?n" by (rule roundHalfEven_ge)
    then show ?thesis by linarith
  next
    case False
    then have "\<bar>x\<bar> = - x" by simp
    then have "x / 2 powi ?e \<le> real_of_int (- K)" using q by simp
    then have "?n \<le> - K" by (rule roundHalfEven_le)
    then show ?thesis by linarith
  qed
  have "\<bar>real_of_int ?n * 2 powi ?e\<bar> = real_of_int \<bar>?n\<bar> * 2 powi ?e"
    using pe by (simp add: abs_mult)
  moreover have "real_of_int K * 2 powi ?e \<le> real_of_int \<bar>?n\<bar> * 2 powi ?e"
    using n pe by (intro mult_right_mono) simp_all
  moreover have "(2::real) powi 1024 \<le> 2 powi ?L"
    using L by (intro power_int_increasing) simp_all
  ultimately have "overflowThreshold \<le> \<bar>real_of_int ?n * 2 powi ?e\<bar>"
    unfolding overflowThreshold_powi split by linarith
  then show ?thesis using x0 by (simp add: roundDouble_def Let_def)
qed

lemma roundDouble_nonneg:
  assumes "0 \<le> x"
  shows "roundDouble x = PosInf \<or> (\<exists>r\<ge>0. roundDouble x = Num r)"
proof (cases "x = 0")
  case True
  then show ?thesis by (simp add: roundDouble_def)
next
  case False
  let ?e = "ulpExponent x"
  have "real_of_int 0 \<le> x / 2 powi ?e" using assms by (simp add: zero_less_power_int)
  then have "0 \<le> roundHalfEven (x / 2 powi ?e)" by (rule roundHalfEven_ge)
  then have "0 \<le> real_of_int (roundHalfEven (x / 2 powi ?e)) * 2 powi ?e"
    by (simp add: zero_less_power_int)
  then show ?thesis using False assms by (simp add: roundDouble_def Let_def)
qed


text \<open>The rounding of a number whose exponent is known.\<close>

lemma roundDouble_binade:
  assumes "2 powi k \<le> \<bar>x\<bar>" "\<bar>x\<bar> < 2 powi (k + 1)"
  shows "roundDouble x =
           (let e = max k (- 1022) - 52;
                r = of_int (roundHalfEven (x / 2 powi e)) * 2 powi e
            in if overflowThreshold \<le> \<bar>r\<bar> then (if 0 < x then PosInf else NegInf)
               else Num r)"
proof -
  have "0 < (2::real) powi k" by (simp add: zero_less_power_int)
  then have "0 < \<bar>x\<bar>" using assms(1) by linarith
  then have "x \<noteq> 0" by simp
  moreover have "ulpExponent x = max k (- 1022) - 52"
    using floor_log2_eq [OF assms] by (simp add: ulpExponent_def)
  ultimately show ?thesis by (simp add: roundDouble_def)
qed

lemma not_overflow: "\<bar>r\<bar> < 2 ^ 53 \<Longrightarrow> \<not> overflowThreshold \<le> \<bar>r\<bar>"
  using below_overflowThreshold [of "\<bar>r\<bar>"] by simp

text \<open>Numbers that are rounded: \<open>1 / 49\<close> and its product with 49, which is
  \<open>0.9999999999999999\<close>; \<open>7 / 10\<close> and its product with 10, which is 7.\<close>

lemma roundDouble_one_49th:
  "roundDouble (1 / 49) = Num (5882252574524729 / 288230376151711744)"
  using roundDouble_binade [of "- 6" "1 / 49"]
    not_overflow [of "5882252574524729 / 288230376151711744"]
  by (simp add: roundHalfEven_def Let_def)

lemma roundDouble_one_49th_times_49:
  "roundDouble (288230376151711721 / 288230376151711744)
     = Num (9007199254740991 / 9007199254740992)"
  using roundDouble_binade [of "- 1" "288230376151711721 / 288230376151711744"]
    not_overflow [of "9007199254740991 / 9007199254740992"]
  by (simp add: roundHalfEven_def Let_def)

lemma roundDouble_7_tenths:
  "roundDouble (7 / 10) = Num (3152519739159347 / 4503599627370496)"
  using roundDouble_binade [of "- 1" "7 / 10"]
    not_overflow [of "3152519739159347 / 4503599627370496"]
  by (simp add: roundHalfEven_def Let_def)

lemma roundDouble_7_tenths_times_10:
  "roundDouble (15762598695796735 / 2251799813685248) = Num 7"
  using roundDouble_binade [of "2" "15762598695796735 / 2251799813685248"]
    not_overflow [of "7"]
  by (simp add: roundHalfEven_def Let_def)

lemma roundDouble_numeral [simp]:
  "numeral n < (2::int) ^ 53 \<Longrightarrow> roundDouble (numeral n) = Num (numeral n)"
  using roundDouble_of_int [of "numeral n"] by simp

lemma roundDouble_0 [simp]: "roundDouble 0 = Num 0"
  by (simp add: roundDouble_def)

lemma roundDouble_1 [simp]: "roundDouble 1 = Num 1"
  using roundDouble_of_int [of 1] by simp

lemma bins_minus_one:
  assumes "0 < bins" "bins < 2 ^ 53"
  shows "jsMinus (Num (of_int bins)) (Num 1) = Num (of_int (bins - 1))"
proof -
  have "\<bar>bins - 1\<bar> < 2 ^ 53" using assms by simp
  then show ?thesis using roundDouble_of_int [of "bins - 1"] by simp
qed

subsection \<open>The bin\<close>

text \<open>The bin of a value that leaves a non-zero range.\<close>

lemma binIdx_in_range:
  assumes bins: "0 < bins" "bins < 2 ^ 53"
    and d: "d = Num d'" "0 \<le> d'"
    and r: "rg = PosInf \<or> (\<exists>r'>0. rg = Num r')"
  shows "\<exists>k. Math_min (Math_floor (jsTimes (jsDivide d rg) (Num (of_int bins))))
                (jsMinus (Num (of_int bins)) (Num 1)) = Num (of_int k)
             \<and> 0 \<le> k \<and> k \<le> bins - 1"
proof -
  have q: "jsDivide d rg = PosInf \<or> (\<exists>q'\<ge>0. jsDivide d rg = Num q')"
  proof -
    from r show ?thesis
    proof
      assume "rg = PosInf"
      then show ?thesis using d by simp
    next
      assume "\<exists>r'>0. rg = Num r'"
      then obtain r' where r': "0 < r'" "rg = Num r'" by blast
      then have "0 \<le> d' / r'" using d by simp
      then show ?thesis using roundDouble_nonneg [of "d' / r'"] r' d by simp
    qed
  qed
  have p: "jsTimes (jsDivide d rg) (Num (of_int bins)) = PosInf
           \<or> (\<exists>p'\<ge>0. jsTimes (jsDivide d rg) (Num (of_int bins)) = Num p')"
  proof -
    from q show ?thesis
    proof
      assume "jsDivide d rg = PosInf"
      then show ?thesis using bins by simp
    next
      assume "\<exists>q'\<ge>0. jsDivide d rg = Num q'"
      then obtain q' where q': "0 \<le> q'" "jsDivide d rg = Num q'" by blast
      then have "0 \<le> q' * of_int bins" using bins by simp
      then show ?thesis using roundDouble_nonneg [of "q' * of_int bins"] q' by simp
    qed
  qed
  from p show ?thesis
  proof
    assume "jsTimes (jsDivide d rg) (Num (of_int bins)) = PosInf"
    then show ?thesis using bins unfolding bins_minus_one [OF bins]
      by (intro exI [of _ "bins - 1"]) simp
  next
    assume "\<exists>p'\<ge>0. jsTimes (jsDivide d rg) (Num (of_int bins)) = Num p'"
    then obtain p' where p': "0 \<le> p'" "jsTimes (jsDivide d rg) (Num (of_int bins)) = Num p'"
      by blast
    have "min (real_of_int \<lfloor>p'\<rfloor>) (real_of_int (bins - 1)) = real_of_int (min \<lfloor>p'\<rfloor> (bins - 1))"
      by (simp add: min_def)
    moreover have "0 \<le> min \<lfloor>p'\<rfloor> (bins - 1)" using p' bins by simp
    ultimately show ?thesis using p' bins unfolding bins_minus_one [OF bins]
      by (intro exI [of _ "min \<lfloor>p'\<rfloor> (bins - 1)"]) (simp del: of_int_diff)
  qed
qed

text \<open>A bin is \<open>NaN\<close>, an infinity or an integer.\<close>

lemma roundDouble_of_int_integral: "integral (roundDouble (of_int i))"
proof (cases "\<bar>i\<bar> < 2 ^ 53")
  case True
  then show ?thesis by (simp add: roundDouble_of_int)
next
  case False
  let ?x = "real_of_int i"
  let ?e = "ulpExponent ?x"
  let ?n = "roundHalfEven (?x / 2 powi ?e)"
  from False have "(2::real) ^ 53 \<le> \<bar>?x\<bar>"
    by (simp flip: of_int_abs)
  then have "int 53 \<le> \<lfloor>log 2 \<bar>?x\<bar>\<rfloor>" by (rule floor_log2_ge)
  then have e: "0 \<le> ?e" by (simp add: ulpExponent_def)
  then have "(2::real) powi ?e = of_int (2 ^ nat ?e)" by (simp add: power_int_def)
  then have "of_int ?n * 2 powi ?e = real_of_int (?n * 2 ^ nat ?e)" by simp
  then have "integral (Num (of_int ?n * 2 powi ?e))" by (simp only: integral.simps floor_of_int)
  then show ?thesis by (simp add: roundDouble_def Let_def)
qed

lemma integral_Math_floor: "integral (Math_floor a)"
  by (cases a) simp_all

lemma integral_Math_min: "integral a \<Longrightarrow> integral b \<Longrightarrow> integral (Math_min a b)"
  by (cases a; cases b) (simp_all add: min_def)

lemma valueTobin_integral: "integral (fst (valueTobin fs d v bins))"
proof -
  have "integral (jsMinus (Num (of_int bins)) (Num 1))"
    using roundDouble_of_int_integral [of "bins - 1"] by simp
  then show ?thesis
    by (simp add: valueTobin_def Let_def integral_Math_min integral_Math_floor
        split: option.splits)
qed

text \<open>A value that is \<open>NaN\<close> falls into the bin \<open>NaN\<close>, once the dimension has
  statistics.\<close>

lemma NaN_right [simp]:
  "Math_min a NaN = NaN" "Math_max a NaN = NaN" "jsMinus a NaN = NaN"
  by (cases a; simp)+

lemma valueTobin_NaN: "fs d = Some st \<Longrightarrow> fst (valueTobin fs d NaN bins) = NaN"
  by (simp add: valueTobin_def Let_def)

text \<open>The quotient and the product are rounded: with the running minimum 0 and maximum
  49, the value 1 and 49 bins, the product \<open>(1 / 49) * 49\<close> is
  \<open>0.9999999999999999\<close>, and the bin is 0.\<close>

lemma valueTobin_rounds:
  "fst (valueTobin [''score'' \<mapsto> \<lparr>fmin = Num 0, fmax = Num 49, fvalues = [Num 0, Num 49]\<rparr>]
          ''score'' (Num 1) 49) = Num 0"
  by (simp add: valueTobin_def Let_def roundDouble_one_49th roundDouble_one_49th_times_49)

text \<open>
  Claim C10, as the code has it. For a finite value and a positive integer bin count
  below \<open>2 ^ 53\<close>, when the dimension has no statistics yet, or its running minimum
  and maximum are finite and the difference of the value and the new minimum does not
  overflow, the conversion returns an integer in \<open>[0, bins - 1]\<close>. It is 0 for the first
  value of a dimension, which initialises the statistics, and for a zero range;
  otherwise it is \<open>Math.floor(((value - min) / (max - min)) * bins)\<close> in double
  arithmetic, capped at \<open>bins - 1\<close>, with \<open>min\<close> and \<open>max\<close> the running statistics after
  the value was taken in; the division is done with a range that is not zero.
\<close>

theorem valueTobin_finite_in_range:
  assumes "0 < bins" "bins < 2 ^ 53"
    and "\<forall>st. fs d = Some st \<longrightarrow>
           (\<exists>m M. fmin st = Num m \<and> fmax st = Num M)
           \<and> jsMinus (Num x) (Math_min (fmin st) (Num x)) \<noteq> PosInf"
  shows "\<exists>k fs'. valueTobin fs d (Num x) bins = (Num (of_int k), fs') \<and> 0 \<le> k \<and> k \<le> bins - 1
    \<and> (fs d = None \<longrightarrow>
          k = 0 \<and> fs' = fs(d \<mapsto> \<lparr>fmin = Num x, fmax = Num x, fvalues = [Num x]\<rparr>))
    \<and> (\<forall>st. fs d = Some st \<longrightarrow>
          (let mn = Math_min (fmin st) (Num x); mx = Math_max (fmax st) (Num x);
               range = jsMinus mx mn
           in fs' = fs(d \<mapsto> \<lparr>fmin = mn, fmax = mx, fvalues = fvalues st @ [Num x]\<rparr>)
              \<and> (range = Num 0 \<longrightarrow> k = 0)
              \<and> (range \<noteq> Num 0 \<longrightarrow>
                   Num (of_int k) =
                     Math_min
                       (Math_floor
                          (jsTimes (jsDivide (jsMinus (Num x) mn) range) (Num (of_int bins))))
                       (jsMinus (Num (of_int bins)) (Num 1)))))"
proof (cases "fs d")
  case None
  then show ?thesis using assms(1) by (simp add: valueTobin_def)
next
  case (Some st)
  then obtain m M where st: "fmin st = Num m" "fmax st = Num M"
    and fin: "jsMinus (Num x) (Math_min (fmin st) (Num x)) \<noteq> PosInf"
    using assms(3) by blast
  let ?mn = "Math_min (fmin st) (Num x)" and ?mx = "Math_max (fmax st) (Num x)"
  let ?range = "jsMinus ?mx ?mn"
  show ?thesis
  proof (cases "?range = Num 0")
    case True
    then show ?thesis using Some assms(1)
      by (intro exI [of _ 0]) (simp add: valueTobin_def Let_def)
  next
    case False
    have "0 \<le> x - min m x" by simp
    then obtain d' where d: "jsMinus (Num x) ?mn = Num d'" "0 \<le> d'"
      using roundDouble_nonneg [of "x - min m x"] fin st by auto
    have "0 \<le> max M x - min m x" by (simp add: le_max_iff_disj min_le_iff_disj)
    then have "?range = PosInf \<or> (\<exists>r\<ge>0. ?range = Num r)"
      using roundDouble_nonneg [of "max M x - min m x"] st by simp
    then have r: "?range = PosInf \<or> (\<exists>r>0. ?range = Num r)"
      using False by (metis order_le_less)
    obtain k where k: "Math_min (Math_floor (jsTimes (jsDivide (jsMinus (Num x) ?mn) ?range)
                                   (Num (of_int bins))))
                         (jsMinus (Num (of_int bins)) (Num 1)) = Num (of_int k)"
        "0 \<le> k" "k \<le> bins - 1"
      using binIdx_in_range [OF assms(1,2) d r] by blast
    show ?thesis using Some False k
      by (intro exI [of _ k]) (simp add: valueTobin_def Let_def)
  qed
qed

theorem valueTobin_finite_in_range_witness:
  "(0::int) < 10 \<and> (10::int) < 2 ^ 53
   \<and> valueTobin [''complexity'' \<mapsto> \<lparr>fmin = Num 10, fmax = Num 20,
                                      fvalues = [Num 10, Num 20]\<rparr>]
        ''complexity'' (Num 17) 10
      = (Num 7, [''complexity'' \<mapsto> \<lparr>fmin = Num 10, fmax = Num 20,
                                      fvalues = [Num 10, Num 20, Num 17]\<rparr>])
   \<and> valueTobin Map.empty ''complexity'' (Num 17) 10
      = (Num 0, [''complexity'' \<mapsto> \<lparr>fmin = Num 17, fmax = Num 17, fvalues = [Num 17]\<rparr>])"
proof -
  let ?fs = "[''complexity'' \<mapsto> \<lparr>fmin = Num 10, fmax = Num 20, fvalues = [Num 10, Num 20]\<rparr>]"
  have h1: "(0::int) < 10" and h2: "(10::int) < 2 ^ 53" by simp_all
  have h3: "\<forall>st. ?fs ''complexity'' = Some st \<longrightarrow>
              (\<exists>m M. fmin st = Num m \<and> fmax st = Num M)
              \<and> jsMinus (Num 17) (Math_min (fmin st) (Num 17)) \<noteq> PosInf"
    by simp
  have e1: "valueTobin ?fs ''complexity'' (Num 17) 10
            = (Num 7, [''complexity'' \<mapsto> \<lparr>fmin = Num 10, fmax = Num 20,
                                            fvalues = [Num 10, Num 20, Num 17]\<rparr>])"
    by (simp add: valueTobin_def Let_def roundDouble_7_tenths roundDouble_7_tenths_times_10)
  have e2: "valueTobin Map.empty ''complexity'' (Num 17) 10
            = (Num 0, [''complexity'' \<mapsto> \<lparr>fmin = Num 17, fmax = Num 17, fvalues = [Num 17]\<rparr>])"
    by (simp add: valueTobin_def)
  show ?thesis
    using h1 h2 e1 e2
      valueTobin_finite_in_range [of 10 ?fs "''complexity''" 17, OF h1 h2 h3]
    by simp
qed

text \<open>
  Claim C10 as stated fails. The first value of the dimension is \<open>-2 ^ 1023\<close>, the second
  \<open>2 ^ 1023\<close>, both finite. The range and the difference of the value and the minimum
  overflow to \<open>Infinity\<close>, their quotient is \<open>NaN\<close>, and so is the bin: \<open>Math.min\<close>
  returns \<open>NaN\<close> when an argument is \<open>NaN\<close>.
\<close>

theorem valueTobin_overflow_counterexample:
  "valueTobin Map.empty ''score'' (Num (- (2 ^ 1023))) 10
     = (Num 0, [''score'' \<mapsto> \<lparr>fmin = Num (- (2 ^ 1023)), fmax = Num (- (2 ^ 1023)),
                                fvalues = [Num (- (2 ^ 1023))]\<rparr>])
   \<and> fst (valueTobin [''score'' \<mapsto> \<lparr>fmin = Num (- (2 ^ 1023)), fmax = Num (- (2 ^ 1023)),
                                     fvalues = [Num (- (2 ^ 1023))]\<rparr>]
             ''score'' (Num (2 ^ 1023)) 10) = NaN"
proof -
  have "overflowThreshold \<le> \<bar>(2::real) ^ 1023 - - (2 ^ 1023)\<bar>"
    by (simp add: overflowThreshold_def)
  then have "roundDouble (2 ^ 1023 - - (2 ^ 1023)) = PosInf"
    using roundDouble_overflow [of "2 ^ 1023 - - (2 ^ 1023)"] by simp
  then show ?thesis by (simp add: valueTobin_def Let_def)
qed

section \<open>Properties of the momentum tracker\<close>

lemma relativeGap_pos: "0 < relativeGap prev tgt"
proof -
  have "(0::real) < 0.000001" by simp
  then show ?thesis
    unfolding relativeGap_def by (cases tgt) (simp_all add: less_max_iff_disj)
qed

lemma length_pushLimited: "length xs \<le> n \<Longrightarrow> length (pushLimited n xs x) \<le> n"
  by (simp add: pushLimited_def)

lemma latestOf_pushLimited: "0 < n \<Longrightarrow> latestOf (pushLimited n xs x) = x"
  by (cases xs) (auto simp: pushLimited_def latestOf_def)

lemma pushLimited_last:
  "0 < n \<Longrightarrow> pushLimited n xs x \<noteq> [] \<and> last (pushLimited n xs x) = x"
  by (cases xs) (auto simp: pushLimited_def)

lemma withInitial_fields:
  "currentBestScore (withInitial st s) = currentBestScore st"
  "backtrackHistory (withInitial st s) = backtrackHistory st"
  "iterationsSinceImprovement (withInitial st s) = iterationsSinceImprovement st"
  "momentum (withInitial st s) = momentum st"
  "recentRelativeImprovements (withInitial st s) = recentRelativeImprovements st"
  by (simp_all add: withInitial_def)

lemma update_improved:
  assumes "enableMBB cfg" "exceeds (scoreOf p) (currentBestScore (getState tr k))"
  shows "getState (tracker_update cfg p it k tgt tr) k =
     (let st = withInitial (getState tr k) (scoreOf p);
          ri = (scoreOf p - previousBestOf st (scoreOf p))
                 / relativeGap (previousBestOf st (scoreOf p)) tgt;
          recent = pushLimited (momentumWindowSize cfg) (recentRelativeImprovements st) ri
      in st\<lparr>currentBestScore := Some (scoreOf p), iterationsSinceImprovement := 0,
            backtrackHistory :=
              pushLimited (backtrackDepth cfg) (backtrackHistory st) (it, p),
            recentRelativeImprovements := recent,
            momentum := momentumBeta cfg * momentum st
                          + (1 - momentumBeta cfg) * latestOf recent\<rparr>)"
  using assms
  by (simp add: tracker_update_def Let_def withInitial_fields getState_def [of "_(_ \<mapsto> _)"])

lemma update_not_improved:
  assumes "enableMBB cfg" "\<not> exceeds (scoreOf p) (currentBestScore (getState tr k))"
  shows "getState (tracker_update cfg p it k tgt tr) k =
     (let st = withInitial (getState tr k) (scoreOf p);
          recent = pushLimited (momentumWindowSize cfg) (recentRelativeImprovements st) 0
      in st\<lparr>iterationsSinceImprovement := iterationsSinceImprovement st + 1,
            recentRelativeImprovements := recent,
            momentum := momentumBeta cfg * momentum st
                          + (1 - momentumBeta cfg) * latestOf recent\<rparr>)"
  using assms
  by (simp add: tracker_update_def Let_def withInitial_fields getState_def [of "_(_ \<mapsto> _)"])

lemma previousBestOf_withInitial:
  "previousBestOf (withInitial st score) score =
     (case currentBestScore st of
        Some b \<Rightarrow> b
      | None \<Rightarrow> (case initialScore st of
                   None \<Rightarrow> score
                 | Some i \<Rightarrow> if i \<noteq> 0 then i else score))"
  by (simp add: previousBestOf_def withInitial_def split: option.splits)

lemma update_disabled: "\<not> enableMBB cfg \<Longrightarrow> tracker_update cfg p it k tgt tr = tr"
  by (simp add: tracker_update_def)

lemma update_other_island:
  "j \<noteq> k \<Longrightarrow> getState (tracker_update cfg p it k tgt tr) j = getState tr j"
  by (simp add: tracker_update_def getState_def Let_def split: prod.splits)

text \<open>
  Claim C5, as the code has it. With MBB enabled and a momentum window of at least one
  entry, \<open>update\<close> takes the improving branch when the island has no running best yet
  (its first call) or when the score strictly exceeds the running best. There \<open>prev\<close> is
  the running best, or on the first call the initial score, which is the score itself, so
  that the relative improvement \<open>(score - prev) / gap\<close> of the first call is 0; the
  running best becomes the score, the stagnation counter becomes 0 and the program is
  pushed on the history, which is cut back to \<open>backtrackDepth\<close> entries. Otherwise the
  relative improvement is 0, the counter grows by 1 and the history stays. In both cases
  the momentum becomes \<open>beta * momentum + (1 - beta) * latest\<close>, and a history within
  \<open>backtrackDepth\<close> stays within it.
\<close>

theorem tracker_update_step:
  assumes mbb: "enableMBB cfg" and win: "0 < momentumWindowSize cfg"
  shows "let st = getState tr k;
             st' = getState (tracker_update cfg p it k tgt tr) k;
             score = scoreOf p;
             prev = (case currentBestScore st of
                       Some b \<Rightarrow> b
                     | None \<Rightarrow> (case initialScore st of
                                 None \<Rightarrow> score
                               | Some i \<Rightarrow> if i \<noteq> 0 then i else score));
             gap = relativeGap prev tgt;
             improved = exceeds score (currentBestScore st);
             latest = (if improved then (score - prev) / gap else 0)
         in 0 < gap
          \<and> (improved \<longrightarrow>
                currentBestScore st' = Some score \<and> iterationsSinceImprovement st' = 0
                \<and> backtrackHistory st'
                    = pushLimited (backtrackDepth cfg) (backtrackHistory st) (it, p))
          \<and> (\<not> improved \<longrightarrow>
                currentBestScore st' = currentBestScore st
                \<and> iterationsSinceImprovement st' = iterationsSinceImprovement st + 1
                \<and> backtrackHistory st' = backtrackHistory st)
          \<and> recentRelativeImprovements st' \<noteq> []
          \<and> last (recentRelativeImprovements st') = latest
          \<and> momentum st' = momentumBeta cfg * momentum st + (1 - momentumBeta cfg) * latest
          \<and> (length (backtrackHistory st) \<le> backtrackDepth cfg \<longrightarrow>
                length (backtrackHistory st') \<le> backtrackDepth cfg)
          \<and> (currentBestScore st = None \<and> initialScore st = None \<longrightarrow>
                improved \<and> prev = score \<and> latest = 0)"
proof (cases "exceeds (scoreOf p) (currentBestScore (getState tr k))")
  case True
  show ?thesis
    unfolding Let_def update_improved [OF mbb True, unfolded Let_def]
      previousBestOf_withInitial
    using True
    by (simp add: relativeGap_pos withInitial_fields latestOf_pushLimited [OF win]
        pushLimited_last [OF win] length_pushLimited exceeds_def split: option.splits)
next
  case False
  show ?thesis
    unfolding Let_def update_not_improved [OF mbb False, unfolded Let_def]
    using False
    by (simp add: relativeGap_pos withInitial_fields latestOf_pushLimited [OF win]
        pushLimited_last [OF win] exceeds_def split: option.splits)
qed

lemma default_pacevolve:
  "enableMBB defaultPACEvolveConfig" "momentumWindowSize defaultPACEvolveConfig = 10"
  "backtrackDepth defaultPACEvolveConfig = 5" "momentumBeta defaultPACEvolveConfig = 9 / 10"
  by (simp_all add: defaultPACEvolveConfig_def)

lemma trackerAfterFirst_state:
  "getState trackerAfterFirst 0 =
     \<lparr>recentRelativeImprovements = [0], momentum = 0,
      backtrackHistory = [(1, scoredProgram ''a'' 0.5)],
      iterationsSinceImprovement = 0, currentBestScore = Some 0.5,
      initialScore = Some 0.5\<rparr>"
  by (simp add: trackerAfterFirst_def tracker_update_def default_pacevolve Let_def getState_def
      tracker_new_def withInitial_def exceeds_def previousBestOf_def relativeGap_def
      pushLimited_def latestOf_def scoreOf_def scoredProgram_def)

theorem tracker_update_step_witness:
  "enableMBB defaultPACEvolveConfig \<and> 0 < momentumWindowSize defaultPACEvolveConfig
   \<and> exceeds (scoreOf (scoredProgram ''b'' 1)) (currentBestScore (getState trackerAfterFirst 0))
   \<and> momentum (getState (tracker_update defaultPACEvolveConfig (scoredProgram ''b'' 1) 2 0
        None trackerAfterFirst) 0) = 0.1
   \<and> iterationsSinceImprovement (getState (tracker_update defaultPACEvolveConfig
        (scoredProgram ''b'' 1) 2 0 None trackerAfterFirst) 0) = 0
   \<and> \<not> exceeds (scoreOf (scoredProgram ''c'' 0.25))
        (currentBestScore (getState trackerAfterFirst 0))
   \<and> iterationsSinceImprovement (getState (tracker_update defaultPACEvolveConfig
        (scoredProgram ''c'' 0.25) 2 0 None trackerAfterFirst) 0) = 1
   \<and> length (backtrackHistory (getState trackerAfterFirst 0))
        \<le> backtrackDepth defaultPACEvolveConfig
   \<and> currentBestScore (getState tracker_new 0) = None
   \<and> initialScore (getState tracker_new 0) = None"
proof -
  have h1: "enableMBB defaultPACEvolveConfig" by (simp add: default_pacevolve)
  have h2: "0 < momentumWindowSize defaultPACEvolveConfig" by (simp add: default_pacevolve)
  have sb: "scoreOf (scoredProgram ''b'' 1) = 1" "scoreOf (scoredProgram ''c'' 0.25) = 0.25"
    by (simp_all add: scoreOf_def scoredProgram_def)
  have n: "currentBestScore (getState tracker_new 0) = None"
    "initialScore (getState tracker_new 0) = None"
    by (simp_all add: getState_def tracker_new_def)
  show ?thesis
    using h1 h2 n
      tracker_update_step [OF h1 h2, of trackerAfterFirst 0 "scoredProgram ''b'' 1" 2 None]
      tracker_update_step [OF h1 h2, of trackerAfterFirst 0 "scoredProgram ''c'' 0.25" 2 None]
    unfolding Let_def trackerAfterFirst_state sb
    by (simp add: exceeds_def relativeGap_def default_pacevolve)
qed

text \<open>
  Claim C5 as stated fails on an island's first call. There \<open>prev\<close> is the initial score,
  which is the score of the call, so the score does not strictly exceed \<open>prev\<close> and the
  claim's second case applies: the stagnation counter would grow by 1 and nothing would
  be pushed. The code compares with \<open>-Infinity\<close> instead: the counter stays 0 and the
  program is pushed on the history.
\<close>

theorem tracker_first_update_counterexample:
  "\<not> exceeds (scoreOf (scoredProgram ''a'' 0.5)) (Some 0.5)
   \<and> iterationsSinceImprovement (getState tracker_new 0) = 0
   \<and> iterationsSinceImprovement (getState trackerAfterFirst 0)
       \<noteq> iterationsSinceImprovement (getState tracker_new 0) + 1
   \<and> backtrackHistory (getState trackerAfterFirst 0) = [(1, scoredProgram ''a'' 0.5)]"
proof -
  have a: "\<not> exceeds (scoreOf (scoredProgram ''a'' 0.5)) (Some 0.5)"
    by (simp add: exceeds_def scoreOf_def scoredProgram_def)
  have b: "iterationsSinceImprovement (getState tracker_new 0) = 0"
    by (simp add: getState_def tracker_new_def)
  show ?thesis
    unfolding trackerAfterFirst_state b using a by simp
qed

section \<open>Properties of applying diffs\<close>

lemma indexOf_Some:
  "indexOf pat s = Some i \<Longrightarrow>
     i + length pat \<le> length s \<and> take (length pat) (drop i s) = pat
     \<and> (\<forall>j<i. take (length pat) (drop j s) \<noteq> pat)"
proof (induction s arbitrary: i)
  case Nil
  then show ?case by (simp split: if_splits)
next
  case (Cons c cs)
  show ?case
  proof (cases "take (length pat) (c # cs) = pat")
    case True
    then have "length (take (length pat) (c # cs)) = length pat" by simp
    then have "length pat \<le> length (c # cs)"
      by (simp only: length_take)
    with True Cons.prems show ?thesis by simp
  next
    case False
    with Cons.prems obtain i' where i': "indexOf pat cs = Some i'" "i = Suc i'"
      by auto
    from Cons.IH [OF i'(1)] False i'(2) show ?thesis
      by (auto simp: less_Suc_eq_0_disj)
  qed
qed

lemma indexOf_None:
  "indexOf pat s = None \<Longrightarrow> \<forall>j. take (length pat) (drop j s) = pat \<longrightarrow> \<not> j + length pat \<le> length s"
proof (induction s)
  case Nil
  then show ?case by (auto split: if_splits)
next
  case (Cons c cs)
  from Cons.prems have a: "take (length pat) (c # cs) \<noteq> pat" and b: "indexOf pat cs = None"
    by (auto split: if_splits)
  show ?case
  proof (intro allI impI)
    fix j assume j: "take (length pat) (drop j (c # cs)) = pat"
    show "\<not> j + length pat \<le> length (c # cs)"
    proof (cases j)
      case 0
      with a j show ?thesis by simp
    next
      case (Suc j')
      with j Cons.IH [OF b] show ?thesis by auto
    qed
  qed
qed

lemma indexOf_first:
  assumes "take (length pat) (drop i s) = pat" "i + length pat \<le> length s"
    "\<forall>j<i. take (length pat) (drop j s) \<noteq> pat"
  shows "indexOf pat s = Some i"
proof (cases "indexOf pat s")
  case None
  with indexOf_None assms show ?thesis by blast
next
  case (Some k)
  from indexOf_Some [OF Some] assms have "\<not> k < i" "\<not> i < k" by auto
  with Some show ?thesis by simp
qed

lemma getSubstitution_plain:
  "CHR ''$'' \<notin> set t \<Longrightarrow> getSubstitution m b a t = t"
  by (induction m b a t rule: getSubstitution.induct) auto

lemma jsReplace_nomatch: "indexOf pat s = None \<Longrightarrow> jsReplace s pat rep = s"
  by (simp add: jsReplace_def)

lemma jsReplace_plain:
  "indexOf pat s = Some i \<Longrightarrow> CHR ''$'' \<notin> set rep \<Longrightarrow>
   jsReplace s pat rep = take i s @ rep @ drop (i + length pat) s"
  by (simp add: jsReplace_def getSubstitution_plain)

lemma jsReplace_roundtrip:
  assumes i: "indexOf X C = Some i"
    and X: "CHR ''$'' \<notin> set X" and Y: "CHR ''$'' \<notin> set Y"
    and first: "\<forall>j<i. \<not> occursAt Y (take i C @ Y @ drop (i + length X) C) j"
  shows "jsReplace (jsReplace C X Y) Y X = C"
proof -
  let ?R = "take i C @ Y @ drop (i + length X) C"
  from indexOf_Some [OF i] have le: "i + length X \<le> length C"
    and at: "take (length X) (drop i C) = X" by auto
  have li: "length (take i C) = i" using le by simp
  have R: "jsReplace C X Y = ?R" using i Y by (rule jsReplace_plain)
  have occ: "take (length Y) (drop i ?R) = Y" using li by simp
  have len: "i + length Y \<le> length ?R" using li by simp
  have nf: "\<forall>j<i. take (length Y) (drop j ?R) \<noteq> Y"
  proof (intro allI impI)
    fix j assume "j < i"
    with first have "\<not> occursAt Y ?R j" by blast
    moreover have "j + length Y \<le> length ?R" using \<open>j < i\<close> len by linarith
    ultimately show "take (length Y) (drop j ?R) \<noteq> Y" by (simp add: occursAt_def)
  qed
  have iy: "indexOf Y ?R = Some i" using occ len nf by (rule indexOf_first)
  have "jsReplace ?R Y X = take i ?R @ X @ drop (i + length Y) ?R"
    using iy X by (rule jsReplace_plain)
  also have "\<dots> = take i C @ X @ drop (i + length X) C" using li by simp
  also have "\<dots> = take i C @ take (length X) (drop i C) @ drop (length X) (drop i C)"
    using at by (simp add: add.commute)
  also have "\<dots> = C"
    by (simp only: append_take_drop_id)
  finally show ?thesis using R by simp
qed

lemma indexOf_None_iff: "indexOf pat s = None \<longleftrightarrow> (\<forall>j. \<not> occursAt pat s j)"
proof
  assume "indexOf pat s = None"
  from indexOf_None [OF this] show "\<forall>j. \<not> occursAt pat s j"
    by (auto simp: occursAt_def)
next
  assume no: "\<forall>j. \<not> occursAt pat s j"
  show "indexOf pat s = None"
  proof (cases "indexOf pat s")
    case None
    then show ?thesis .
  next
    case (Some i)
    from indexOf_Some [OF Some] have "occursAt pat s i" by (simp add: occursAt_def)
    with no show ?thesis by blast
  qed
qed

lemma indexOf_Some_iff:
  "indexOf pat s = Some i \<longleftrightarrow> occursAt pat s i \<and> (\<forall>j<i. \<not> occursAt pat s j)"
proof
  assume a: "indexOf pat s = Some i"
  from indexOf_Some [OF a] have le: "i + length pat \<le> length s"
    and at: "take (length pat) (drop i s) = pat"
    and first: "\<forall>j<i. take (length pat) (drop j s) \<noteq> pat" by auto
  show "occursAt pat s i \<and> (\<forall>j<i. \<not> occursAt pat s j)"
    using le at first by (simp add: occursAt_def)
next
  assume a: "occursAt pat s i \<and> (\<forall>j<i. \<not> occursAt pat s j)"
  then have le: "i + length pat \<le> length s" and at: "take (length pat) (drop i s) = pat"
    by (simp_all add: occursAt_def)
  have "\<forall>j<i. take (length pat) (drop j s) \<noteq> pat"
  proof (intro allI impI)
    fix j assume "j < i"
    with a have "\<not> occursAt pat s j" by blast
    moreover have "j + length pat \<le> length s" using \<open>j < i\<close> le by linarith
    ultimately show "take (length pat) (drop j s) \<noteq> pat" by (simp add: occursAt_def)
  qed
  with at le show "indexOf pat s = Some i" by (intro indexOf_first)
qed

text \<open>
  Claim C7, as the code has it, for a single diff with search string \<open>X\<close> and replace
  string \<open>Y\<close>. If \<open>X\<close> does not occur in \<open>C\<close> the code is returned unchanged. If \<open>Y\<close>
  holds no dollar sign, the first occurrence of \<open>X\<close> is replaced by \<open>Y\<close>. If moreover
  \<open>X\<close> holds no dollar sign and \<open>Y\<close> does not occur, in the text after the
  replacement, at a position before the one where it was put, then applying the inverse
  diff to that text gives \<open>C\<close> back.
\<close>

theorem applyDiffs_single_diff:
  "((\<forall>j. \<not> occursAt X C j) \<longrightarrow> applyDiffs C [\<lparr>search = X, replace = Y\<rparr>] = C)
   \<and> (\<forall>i. occursAt X C i \<and> (\<forall>j<i. \<not> occursAt X C j) \<and> CHR ''$'' \<notin> set Y \<longrightarrow>
          applyDiffs C [\<lparr>search = X, replace = Y\<rparr>] = take i C @ Y @ drop (i + length X) C)
   \<and> (\<forall>i. occursAt X C i \<and> (\<forall>j<i. \<not> occursAt X C j)
          \<and> CHR ''$'' \<notin> set X \<and> CHR ''$'' \<notin> set Y
          \<and> (\<forall>j<i. \<not> occursAt Y (take i C @ Y @ drop (i + length X) C) j) \<longrightarrow>
          applyDiffs (applyDiffs C [\<lparr>search = X, replace = Y\<rparr>])
            [\<lparr>search = Y, replace = X\<rparr>] = C)"
proof (intro conjI allI impI)
  assume "\<forall>j. \<not> occursAt X C j"
  then have "indexOf X C = None" by (simp add: indexOf_None_iff)
  then show "applyDiffs C [\<lparr>search = X, replace = Y\<rparr>] = C"
    by (simp add: applyDiffs_def jsReplace_nomatch)
next
  fix i
  assume a: "occursAt X C i \<and> (\<forall>j<i. \<not> occursAt X C j) \<and> CHR ''$'' \<notin> set Y"
  then have "indexOf X C = Some i" by (simp add: indexOf_Some_iff)
  then show "applyDiffs C [\<lparr>search = X, replace = Y\<rparr>] = take i C @ Y @ drop (i + length X) C"
    using a by (simp add: applyDiffs_def jsReplace_plain)
next
  fix i
  assume a: "occursAt X C i \<and> (\<forall>j<i. \<not> occursAt X C j)
          \<and> CHR ''$'' \<notin> set X \<and> CHR ''$'' \<notin> set Y
          \<and> (\<forall>j<i. \<not> occursAt Y (take i C @ Y @ drop (i + length X) C) j)"
  then have i: "indexOf X C = Some i" by (simp add: indexOf_Some_iff)
  have "jsReplace (jsReplace C X Y) Y X = C"
    using i a by (intro jsReplace_roundtrip [of X C i Y]) simp_all
  then show "applyDiffs (applyDiffs C [\<lparr>search = X, replace = Y\<rparr>])
            [\<lparr>search = Y, replace = X\<rparr>] = C"
    by (simp add: applyDiffs_def)
qed

theorem applyDiffs_single_diff_witness:
  "indexOf ''z'' ''abc'' = None
   \<and> applyDiffs ''abc'' [\<lparr>search = ''z'', replace = ''xy''\<rparr>] = ''abc''
   \<and> occursAt ''b'' ''abc'' 1 \<and> \<not> occursAt ''b'' ''abc'' 0
   \<and> CHR ''$'' \<notin> set ''b'' \<and> CHR ''$'' \<notin> set ''xy''
   \<and> \<not> occursAt ''xy'' ''axyc'' 0
   \<and> applyDiffs ''abc'' [\<lparr>search = ''b'', replace = ''xy''\<rparr>] = ''axyc''
   \<and> applyDiffs (applyDiffs ''abc'' [\<lparr>search = ''b'', replace = ''xy''\<rparr>])
        [\<lparr>search = ''xy'', replace = ''b''\<rparr>] = ''abc''"
proof -
  have h1: "\<forall>j. \<not> occursAt ''z'' ''abc'' j"
    by (simp add: indexOf_None_iff [symmetric])
  have h2: "occursAt ''b'' ''abc'' 1 \<and> (\<forall>j<1. \<not> occursAt ''b'' ''abc'' j)"
    by (simp add: occursAt_def)
  have h3: "\<forall>j<1. \<not> occursAt ''xy'' ''axyc'' j"
    by (simp add: occursAt_def)
  have h4: "CHR ''$'' \<notin> set ''b'' \<and> CHR ''$'' \<notin> set ''xy''" by simp
  have e: "take 1 ''abc'' @ ''xy'' @ drop (1 + length ''b'') ''abc'' = ''axyc''" by simp
  note t1 = applyDiffs_single_diff [of "''z''" "''abc''" "''xy''"]
  note t2 = applyDiffs_single_diff [of "''b''" "''abc''" "''xy''"]
  have r1: "applyDiffs ''abc'' [\<lparr>search = ''z'', replace = ''xy''\<rparr>] = ''abc''"
    using t1 h1 by blast
  have r2: "applyDiffs ''abc'' [\<lparr>search = ''b'', replace = ''xy''\<rparr>]
              = take 1 ''abc'' @ ''xy'' @ drop (1 + length ''b'') ''abc''"
    using t2 h2 h4 by blast
  have h3': "\<forall>j<1. \<not> occursAt ''xy''
               (take 1 ''abc'' @ ''xy'' @ drop (1 + length ''b'') ''abc'') j"
    using h3 unfolding e .
  have r3: "applyDiffs (applyDiffs ''abc'' [\<lparr>search = ''b'', replace = ''xy''\<rparr>])
        [\<lparr>search = ''xy'', replace = ''b''\<rparr>] = ''abc''"
    using t2 h2 h4 h3' by blast
  have c: "indexOf ''z'' ''abc'' = None \<and> occursAt ''b'' ''abc'' 1
           \<and> \<not> occursAt ''b'' ''abc'' 0 \<and> \<not> occursAt ''xy'' ''axyc'' 0"
    by (simp add: occursAt_def)
  show ?thesis
    using c h4 r1 r2 r3 unfolding e by blast
qed

text \<open>
  Claim C7 as stated fails: \<open>a\<close> occurs exactly once in \<open>ba\<close>; replacing it by \<open>b\<close>
  gives \<open>bb\<close>, in which the inverse diff replaces the first \<open>b\<close>, so the round trip
  ends in \<open>ab\<close>.
\<close>

theorem applyDiffs_roundtrip_counterexample:
  "countOccurrences ''a'' ''ba'' = 1
   \<and> applyDiffs (applyDiffs ''ba'' [\<lparr>search = ''a'', replace = ''b''\<rparr>])
        [\<lparr>search = ''b'', replace = ''a''\<rparr>] = ''ab''
   \<and> ''ab'' \<noteq> ''ba''"
  by (simp add: countOccurrences_def occursAt_def applyDiffs_def jsReplace_def upt_rec)

text \<open>The replace string is a template: a doubled dollar sign is written as one.\<close>

lemma applyDiffs_dollar_template:
  "applyDiffs ''x = 1'' [\<lparr>search = ''1'', replace = ''$$''\<rparr>] = ''x = $''"
  by (simp add: applyDiffs_def jsReplace_def)

section \<open>Properties of the template manager\<close>

lemma basename_txt: "basename (n @ ''.txt'') ''.txt'' = n"
  by (simp add: basename_def endsWith_def)

lemma endsWith_txt: "endsWith (n @ ''.txt'') ''.txt''"
  by (simp add: endsWith_def)

lemma endsWith_split: "endsWith f ''.txt'' \<Longrightarrow> f = basename f ''.txt'' @ ''.txt''"
proof -
  assume a: "endsWith f ''.txt''"
  then have "drop (length f - length ''.txt'') f = ''.txt''" by (simp only: endsWith_def)
  moreover have "take (length f - length ''.txt'') f @ drop (length f - length ''.txt'') f = f"
    by (rule append_take_drop_id)
  ultimately have "f = take (length f - length ''.txt'') f @ ''.txt''" by simp
  moreover have "basename f ''.txt'' = take (length f - length ''.txt'') f"
    using a by (simp only: basename_def) simp
  ultimately show ?thesis by simp
qed

lemma load_fold_last:
  assumes "distinct (map fst files)" "(n @ ''.txt'', c) \<in> set files"
  shows "foldl (\<lambda>t (file, content).
                   if endsWith file ''.txt'' then t(basename file ''.txt'' \<mapsto> content) else t)
            t files n = Some c"
  using assms
proof (induction files arbitrary: t rule: rev_induct)
  case Nil
  then show ?case by simp
next
  case (snoc x xs)
  obtain f c' where x: "x = (f, c')" by (cases x)
  show ?case
  proof (cases "f = n @ ''.txt''")
    case True
    with snoc.prems x have "c' = c"
      by (auto simp: image_iff)
    with True x show ?thesis by (simp add: endsWith_txt basename_txt)
  next
    case False
    with snoc.prems x have mem: "(n @ ''.txt'', c) \<in> set xs" and d: "distinct (map fst xs)"
      by auto
    have ne: "endsWith f ''.txt'' \<Longrightarrow> basename f ''.txt'' \<noteq> n"
      using False endsWith_split by blast
    show ?thesis using snoc.IH [OF d mem, of t] x ne by auto
  qed
qed

text \<open>
  Claim C9 does not hold of the code. The user directory is loaded first and the
  built-in directory after it, into the same map, so on a collision the built-in
  template overwrites the user's: whatever the user directory holds, a template that the
  built-in directory has is returned in the built-in version.
\<close>

theorem template_default_overrides:
  assumes "fs dflt = Some files" "distinct (map fst files)" "(n @ ''.txt'', c) \<in> set files"
  shows "getTemplate (TemplateManager_new fs custom dflt) n = c"
  using assms load_fold_last [OF assms(2,3)]
  by (simp add: TemplateManager_new_def loadTemplates_def loadTemplatesFromDir_def
      getTemplate_def Let_def)

theorem template_default_overrides_witness:
  "collidingFs ''defaults''
     = Some [(''diff_user.txt'', ''DEFAULT VERSION''), (''fragments.json'', ''{}'')]
   \<and> collidingFs ''user'' = Some [(''diff_user.txt'', ''USER VERSION'')]
   \<and> getTemplate (TemplateManager_new collidingFs (Some ''user'') ''defaults'') ''diff_user''
       = ''DEFAULT VERSION''"
proof -
  have f: "collidingFs ''defaults''
     = Some [(''diff_user.txt'', ''DEFAULT VERSION''), (''fragments.json'', ''{}'')]"
    by (simp add: collidingFs_def)
  have u: "collidingFs ''user'' = Some [(''diff_user.txt'', ''USER VERSION'')]"
    by (simp add: collidingFs_def)
  have d: "distinct (map fst [(''diff_user.txt'', ''DEFAULT VERSION''),
                              (''fragments.json'', ''{}'')])"
    by simp
  have m: "(''diff_user'' @ ''.txt'', ''DEFAULT VERSION'')
             \<in> set [(''diff_user.txt'', ''DEFAULT VERSION''), (''fragments.json'', ''{}'')]"
    by simp
  show ?thesis
    using f u
      template_default_overrides [of collidingFs "''defaults''"
        "[(''diff_user.txt'', ''DEFAULT VERSION''), (''fragments.json'', ''{}'')]"
        "''diff_user''" "''DEFAULT VERSION''" "Some ''user''", OF f d m]
    by simp
qed

section \<open>Properties of the evaluator's retries\<close>

lemma attemptBody_throws:
  "evaluation env a = EvalThrows msg \<Longrightarrow> attemptBody cfg env programId a pending = (pending, [], Inl msg)"
  by (simp add: attemptBody_def)

lemma evaluateLoop_done:
  "\<not> attempt < maxRetries cfg + 1 \<Longrightarrow>
   evaluateLoop cfg env programId attempt pending trace = (Inr [(''error'', 0)], pending, trace)"
  by (subst evaluateLoop.simps) simp

lemma evaluateLoop_fail_step:
  assumes "attempt < maxRetries cfg + 1" "mkdtempThrows env attempt = None"
    "evaluation env attempt = EvalThrows (m attempt)"
  shows "evaluateLoop cfg env programId attempt pending trace =
     evaluateLoop cfg env programId (attempt + 1)
       (if artifactsEnabled env \<and> programId \<noteq> []
        then pending(programId \<mapsto> failureArtifacts (m attempt) attempt) else pending)
       (trace @ failedAttemptEvents cfg env programId m attempt)"
  using assms
  by (subst evaluateLoop.simps) (simp add: attemptBody_throws failedAttemptEvents_def Let_def)

lemma evaluateLoop_all_fail:
  assumes "\<forall>a. k \<le> a \<and> a \<le> maxRetries cfg \<longrightarrow>
             mkdtempThrows env a = None \<and> evaluation env a = EvalThrows (m a)"
    and "k \<le> maxRetries cfg + 1"
  shows "evaluateLoop cfg env programId k pending trace =
     (Inr [(''error'', 0)],
      (if artifactsEnabled env \<and> programId \<noteq> [] \<and> k \<le> maxRetries cfg
       then pending(programId \<mapsto> failureArtifacts (m (maxRetries cfg)) (maxRetries cfg))
       else pending),
      trace @ concat (map (failedAttemptEvents cfg env programId m) [k..<maxRetries cfg + 1]))"
  using assms
proof (induction "maxRetries cfg + 1 - k" arbitrary: k pending trace)
  case 0
  then have "k = maxRetries cfg + 1" by simp
  then show ?case by (simp add: evaluateLoop_done)
next
  case (Suc n)
  then have lt: "k < maxRetries cfg + 1" by simp
  then have le: "k \<le> maxRetries cfg" by simp
  have step: "evaluateLoop cfg env programId k pending trace =
     evaluateLoop cfg env programId (k + 1)
       (if artifactsEnabled env \<and> programId \<noteq> []
        then pending(programId \<mapsto> failureArtifacts (m k) k) else pending)
       (trace @ failedAttemptEvents cfg env programId m k)"
    using lt Suc.prems(1) le by (intro evaluateLoop_fail_step) auto
  have n: "n = maxRetries cfg + 1 - (k + 1)" using Suc.hyps(2) by simp
  have pre: "\<forall>a. k + 1 \<le> a \<and> a \<le> maxRetries cfg \<longrightarrow>
             mkdtempThrows env a = None \<and> evaluation env a = EvalThrows (m a)"
    using Suc.prems(1) by auto
  have le2: "k + 1 \<le> maxRetries cfg + 1" using lt by simp
  have upt: "[k..<maxRetries cfg + 1] = k # [k + 1..<maxRetries cfg + 1]"
    using lt by (simp add: upt_conv_Cons)
  show ?case
  proof (cases "k = maxRetries cfg")
    case True
    then show ?thesis
      unfolding step Suc.hyps(1) [OF n pre le2] upt by simp
  next
    case False
    with le have "k + 1 \<le> maxRetries cfg" by simp
    then show ?thesis
      unfolding step Suc.hyps(1) [OF n pre le2] upt using le by simp
  qed
qed

text \<open>
  Claim C8, as the code has it. When in every attempt the temporary directory is made
  and the evaluation throws, \<open>evaluateProgram\<close> makes \<open>maxRetries + 1\<close> attempts, sleeps
  1000 ms after every failed attempt but the last, and returns the metrics
  \<open>{ error: 0.0 }\<close>. After a failed attempt it records the error message, the stage
  \<open>evaluation\<close> and the attempt's number counted from 1 under the program id, provided
  that artifacts are enabled and the program id is not empty; otherwise nothing is
  recorded.
\<close>

theorem evaluateProgram_all_attempts_fail:
  assumes "\<forall>a \<le> maxRetries cfg.
             mkdtempThrows env a = None \<and> evaluation env a = EvalThrows (m a)"
  shows "evaluateProgram cfg env programId pending =
     (Inr [(''error'', 0)],
      (if artifactsEnabled env \<and> programId \<noteq> []
       then pending(programId \<mapsto> failureArtifacts (m (maxRetries cfg)) (maxRetries cfg))
       else pending),
      concat (map (failedAttemptEvents cfg env programId m) [0..<maxRetries cfg + 1]))"
  unfolding evaluateProgram_def
  using evaluateLoop_all_fail [of 0 cfg env m programId pending "[]"] assms
  by simp

theorem evaluateProgram_all_attempts_fail_witness:
  "maxRetries defaultEvaluatorConfig = 3
   \<and> mkdtempThrows failingEnv = (\<lambda>a. None)
   \<and> evaluation failingEnv = (\<lambda>a. EvalThrows ''boom'')
   \<and> evaluateProgram defaultEvaluatorConfig failingEnv ''p1'' Map.empty =
     (Inr [(''error'', 0)],
      [''p1'' \<mapsto> [(''stderr'', AString ''boom''), (''failureStage'', AString ''evaluation''),
                   (''attempt'', ANumber 4)]],
      [Attempt 0, Recorded ''p1'' (failureArtifacts ''boom'' 0), Sleep 1000,
       Attempt 1, Recorded ''p1'' (failureArtifacts ''boom'' 1), Sleep 1000,
       Attempt 2, Recorded ''p1'' (failureArtifacts ''boom'' 2), Sleep 1000,
       Attempt 3, Recorded ''p1'' (failureArtifacts ''boom'' 3)])"
proof -
  have h: "\<forall>a \<le> maxRetries defaultEvaluatorConfig.
      mkdtempThrows failingEnv a = None
      \<and> evaluation failingEnv a = EvalThrows ((\<lambda>n. ''boom'') a)"
    by (simp add: failingEnv_def)
  have r: "maxRetries defaultEvaluatorConfig = 3" by (simp add: defaultEvaluatorConfig_def)
  have en: "artifactsEnabled failingEnv" by (simp add: failingEnv_def)
  have upt: "[0..<3 + 1] = [0, 1, 2, 3::nat]" by (simp add: upt_rec)
  have fe: "mkdtempThrows failingEnv = (\<lambda>a. None)"
    "evaluation failingEnv = (\<lambda>a. EvalThrows ''boom'')"
    by (simp_all add: failingEnv_def)
  have res: "evaluateProgram defaultEvaluatorConfig failingEnv ''p1'' Map.empty =
     (Inr [(''error'', 0)],
      [''p1'' \<mapsto> [(''stderr'', AString ''boom''), (''failureStage'', AString ''evaluation''),
                   (''attempt'', ANumber 4)]],
      [Attempt 0, Recorded ''p1'' (failureArtifacts ''boom'' 0), Sleep 1000,
       Attempt 1, Recorded ''p1'' (failureArtifacts ''boom'' 1), Sleep 1000,
       Attempt 2, Recorded ''p1'' (failureArtifacts ''boom'' 2), Sleep 1000,
       Attempt 3, Recorded ''p1'' (failureArtifacts ''boom'' 3)])"
    using evaluateProgram_all_attempts_fail [OF h, of "''p1''" Map.empty]
    unfolding r upt
    by (simp add: en failedAttemptEvents_def r failureArtifacts_def)
  show ?thesis
    using r fe res by blast
qed

text \<open>
  Claim C8 as stated fails: \<open>programId\<close> defaults to the empty string, and then the
  four failed attempts of the default configuration record nothing, although artifacts
  are enabled.
\<close>

theorem evaluateProgram_record_counterexample:
  "evaluateProgram defaultEvaluatorConfig failingEnv [] Map.empty =
     (Inr [(''error'', 0)], Map.empty,
      [Attempt 0, Sleep 1000, Attempt 1, Sleep 1000, Attempt 2, Sleep 1000, Attempt 3])"
  unfolding evaluateProgram_def
  by (simp add: evaluateLoop.simps attemptBody_def defaultEvaluatorConfig_def failingEnv_def)

section \<open>Properties of the run loop\<close>

lemma run_loop_target_exit:
  assumes "i \<le> k" "k \<le> iterations"
    and "\<forall>j. i \<le> j \<and> j \<le> k \<longrightarrow> \<not> shouldStopAt env j"
    and "\<forall>j. i \<le> j \<and> j < k \<longrightarrow> \<not> targetReached t (bestAfter env j)"
    and "\<not> iterationThrows env k" "targetReached t (bestAfter env k)"
    and "iteration (engineStatus st) < k"
  shows "ran (run_loop cfg env (Some t) iterations i st) = ran st @ [i..<Suc k]
       \<and> iteration (engineStatus (run_loop cfg env (Some t) iterations i st)) < k
       \<and> status (engineStatus (run_loop cfg env (Some t) iterations i st))
           = status (engineStatus st)"
  using assms
proof (induction "k - i" arbitrary: i st)
  case 0
  then have ik: "i = k" by simp
  show ?case
    using 0 unfolding ik
    by (subst (1 2 3) run_loop.simps) (simp add: Let_def)
next
  case (Suc n)
  then have lt: "i < k" by simp
  have n: "n = k - (i + 1)" using Suc.hyps(2) by simp
  have cont: "i \<le> iterations \<and> \<not> shouldStopAt env i" using Suc.prems lt by auto
  have nr: "\<not> targetReached t (bestAfter env i)" using Suc.prems(4) lt by auto
  have upt: "[i..<Suc k] = i # [i + 1..<Suc k]" using lt by (simp add: upt_conv_Cons)
  have p3: "\<forall>j. i + 1 \<le> j \<and> j \<le> k \<longrightarrow> \<not> shouldStopAt env j" using Suc.prems(3) by auto
  have p4: "\<forall>j. i + 1 \<le> j \<and> j < k \<longrightarrow> \<not> targetReached t (bestAfter env j)"
    using Suc.prems(4) by auto
  have le: "i + 1 \<le> k" using lt by simp
  note IH = Suc.hyps(1) [OF n le Suc.prems(2) p3 p4 Suc.prems(5) Suc.prems(6)]
  let ?st1 = "st\<lparr>ran := ran st @ [i]\<rparr>"
  let ?st2 = "?st1\<lparr>engineStatus := (engineStatus ?st1)
                        \<lparr>iteration := i, bestScore := bestScoreOf (bestAfter env i)\<rparr>\<rparr>"
  have a1: "iteration (engineStatus ?st1) < k" using Suc.prems(7) by simp
  have a2: "iteration (engineStatus ?st2) < k" using lt by simp
  consider (thr) "iterationThrows env i"
    | (chk) "\<not> iterationThrows env i" "checkpointDue cfg i \<and> checkpointThrows env i"
    | (ok) "\<not> iterationThrows env i" "\<not> (checkpointDue cfg i \<and> checkpointThrows env i)"
    by blast
  then show ?case
  proof cases
    case thr
    have "run_loop cfg env (Some t) iterations i st
            = run_loop cfg env (Some t) iterations (i + 1) ?st1"
      using cont thr by (subst run_loop.simps) (simp add: Let_def)
    then show ?thesis using IH [OF a1] upt by simp
  next
    case chk
    have "run_loop cfg env (Some t) iterations i st
            = run_loop cfg env (Some t) iterations (i + 1) ?st1"
      using cont chk nr by (subst run_loop.simps) (simp add: Let_def)
    then show ?thesis using IH [OF a1] upt by simp
  next
    case ok
    have "run_loop cfg env (Some t) iterations i st
            = run_loop cfg env (Some t) iterations (i + 1) ?st2"
      using cont ok nr by (subst run_loop.simps) (auto simp add: Let_def)
    then show ?thesis using IH [OF a2] upt by simp
  qed
qed

text \<open>
  Claim C6. If the target score is first reached by iteration \<open>k\<close>, which does not
  raise, the loop runs the iterations 1 to \<open>k\<close> and no other, and the run ends with the
  status \<open>completed\<close>. The iteration number the status reports is smaller than \<open>k\<close>,
  not \<open>k\<close>: the \<open>break\<close> leaves the loop before the status is updated for iteration
  \<open>k\<close>.
\<close>

theorem run_target_exit:
  assumes "1 \<le> k" "k \<le> iterationsOf cfg maxIterationsArg"
    and "\<forall>j. 1 \<le> j \<and> j \<le> k \<longrightarrow> \<not> shouldStopAt env j"
    and "\<forall>j. 1 \<le> j \<and> j < k \<longrightarrow> \<not> targetReached t (bestAfter env j)"
    and "\<not> iterationThrows env k" "targetReached t (bestAfter env k)"
  shows "ran (run cfg env maxIterationsArg (Some t)) = [1..<Suc k]
       \<and> iteration (engineStatus (run cfg env maxIterationsArg (Some t))) < k
       \<and> status (engineStatus (run cfg env maxIterationsArg (Some t))) = Completed"
  using run_loop_target_exit [OF assms(1,2,3,4,5,6), of
      "\<lparr>engineStatus = \<lparr>status = Running, iteration = 0,
          totalIterations = iterationsOf cfg maxIterationsArg, bestScore = None\<rparr>,
        ran = []\<rparr>" cfg]
    assms(1)
  by (simp add: run_def Let_def)

lemma example_run:
  "run exampleEngineConfig exampleRunEnv None (Some 1)
     = \<lparr>engineStatus = \<lparr>status = Completed, iteration = 1, totalIterations = 5,
                         bestScore = Some 0.5\<rparr>,
        ran = [1, 2]\<rparr>"
  by (simp add: run_def iterationsOf_def Let_def run_loop.simps exampleEngineConfig_def
      exampleRunEnv_def targetReached_def bestScoreOf_def scoredProgram_def checkpointDue_def)

theorem run_target_exit_witness:
  "(1::nat) \<le> 2 \<and> 2 \<le> iterationsOf exampleEngineConfig None
   \<and> \<not> shouldStopAt exampleRunEnv 1 \<and> \<not> shouldStopAt exampleRunEnv 2
   \<and> \<not> targetReached 1 (bestAfter exampleRunEnv 1)
   \<and> \<not> iterationThrows exampleRunEnv 2 \<and> targetReached 1 (bestAfter exampleRunEnv 2)
   \<and> ran (run exampleEngineConfig exampleRunEnv None (Some 1)) = [1, 2]
   \<and> iteration (engineStatus (run exampleEngineConfig exampleRunEnv None (Some 1))) = 1
   \<and> bestScore (engineStatus (run exampleEngineConfig exampleRunEnv None (Some 1)))
       = Some 0.5"
proof -
  have h1: "(1::nat) \<le> 2" by simp
  have h2: "2 \<le> iterationsOf exampleEngineConfig None"
    by (simp add: iterationsOf_def exampleEngineConfig_def)
  have h3: "\<forall>j. 1 \<le> j \<and> j \<le> 2 \<longrightarrow> \<not> shouldStopAt exampleRunEnv j"
    by (simp add: exampleRunEnv_def)
  have h4: "\<forall>j. 1 \<le> j \<and> j < 2 \<longrightarrow> \<not> targetReached 1 (bestAfter exampleRunEnv j)"
    by (simp add: exampleRunEnv_def targetReached_def scoredProgram_def)
  have h5: "\<not> iterationThrows exampleRunEnv 2" by (simp add: exampleRunEnv_def)
  have h6: "targetReached 1 (bestAfter exampleRunEnv 2)"
    by (simp add: exampleRunEnv_def targetReached_def scoredProgram_def)
  have h7: "\<not> shouldStopAt exampleRunEnv 1 \<and> \<not> shouldStopAt exampleRunEnv 2
            \<and> \<not> targetReached 1 (bestAfter exampleRunEnv 1)"
    by (simp add: exampleRunEnv_def targetReached_def scoredProgram_def)
  show ?thesis
    using h1 h2 h5 h6 h7 run_target_exit [OF h1 h2 h3 h4 h5 h6]
    by (simp add: example_run)
qed

section \<open>Properties of the program database\<close>

subsection \<open>Association lists\<close>

lemma snd_set_update: "snd ` set (AList.update k v al) \<subseteq> insert v (snd ` set al)"
  by (induction al) auto

lemma distinct_snd_update:
  "distinct (map snd al) \<Longrightarrow> v \<notin> snd ` set al \<Longrightarrow> distinct (map snd (AList.update k v al))"
proof (induction al)
  case Nil
  then show ?case by simp
next
  case (Cons a al)
  have "snd ` set (AList.update k v al) \<subseteq> insert v (snd ` set al)" by (rule snd_set_update)
  with Cons show ?case by (auto simp: image_iff)
qed

lemma set_update_cases:
  assumes "distinct (map fst al)" "(k', i) \<in> set (AList.update k v al)"
  shows "(k' = k \<and> i = v) \<or> (k' \<noteq> k \<and> (k', i) \<in> set al)"
proof -
  have "distinct (map fst (AList.update k v al))" using assms(1) by (rule distinct_update)
  with assms(2) have "map_of (AList.update k v al) k' = Some i" by simp
  then have "((map_of al)(k \<mapsto> v)) k' = Some i" by (simp add: update_conv')
  then show ?thesis using assms(1) by (auto split: if_splits)
qed

lemma old_value_gone:
  assumes "distinct (map fst al)" "map_of al k = Some e" "(k', e) \<in> set al" 
    "distinct (map snd al)"
  shows "k' = k"
proof -
  from assms(1,2) have "(k, e) \<in> set al" by (simp add: map_of_eq_Some_iff)
  with assms(3,4) show ?thesis
    by (metis distinct_map eq_key_imp_eq_value inj_on_def prod.collapse snd_conv fst_conv)
qed

subsection \<open>Stages of add\<close>

lemma storeProgram_fields:
  "programIds (storeProgram p it db) = insert (pid p) (programIds db)"
  "islands (storeProgram p it db) = islands db"
  "islandFeatureMaps (storeProgram p it db) = islandFeatureMaps db"
  by (auto simp: storeProgram_def programIds_def Let_def AList.dom_update split: option.splits)

lemma stampIteration_pid: "pid (stampIteration p it) = pid p"
  by (simp add: stampIteration_def split: option.splits)

lemma updateArchive_fields:
  "programs (updateArchive cfg p db) = programs db"
  "islands (updateArchive cfg p db) = islands db"
  "islandFeatureMaps (updateArchive cfg p db) = islandFeatureMaps db"
  "metadataIsland (updateArchive cfg p db) = metadataIsland db"
  by (simp_all add: updateArchive_def split: list.splits)

lemma updateBestProgram_fields:
  "programs (updateBestProgram cfg p db) = programs db"
  "islands (updateBestProgram cfg p db) = islands db"
  "islandFeatureMaps (updateBestProgram cfg p db) = islandFeatureMaps db"
  by (simp_all add: updateBestProgram_def split: option.splits)

lemma updateIslandBestProgram_fields:
  "programs (updateIslandBestProgram cfg p k db) = programs db"
  "islands (updateIslandBestProgram cfg p k db) = islands db"
  "islandFeatureMaps (updateIslandBestProgram cfg p k db) = islandFeatureMaps db"
  by (simp_all add: updateIslandBestProgram_def Let_def split: option.splits)

lemma placeInCell_programs: "programs (placeInCell cfg k key p db) = programs db"
  by (simp add: placeInCell_def Let_def split: option.splits)

lemma placeInCell_lengths:
  "length (islands (placeInCell cfg k key p db)) = length (islands db)"
  "length (islandFeatureMaps (placeInCell cfg k key p db)) = length (islandFeatureMaps db)"
  by (simp_all add: placeInCell_def Let_def split: option.splits)

lemma placeInCell_other:
  "j \<noteq> k \<Longrightarrow> islands (placeInCell cfg k key p db) ! j = islands db ! j"
  "j \<noteq> k \<Longrightarrow> islandFeatureMaps (placeInCell cfg k key p db) ! j = islandFeatureMaps db ! j"
  by (simp_all add: placeInCell_def Let_def split: option.splits)

lemma placeInCell_keep:
  "\<not> shouldReplace cfg db (islandFeatureMaps db ! k) key p \<Longrightarrow> placeInCell cfg k key p db = db"
  by (simp add: placeInCell_def)

lemma placeInCell_replace:
  assumes "shouldReplace cfg db (islandFeatureMaps db ! k) key p"
    "k < length (islands db)" "k < length (islandFeatureMaps db)"
  shows "islandFeatureMaps (placeInCell cfg k key p db) ! k
           = AList.update key (pid p) (islandFeatureMaps db ! k)"
    and "set (islands (placeInCell cfg k key p db) ! k)
           = set (islands db ! k)
               - {e. map_of (islandFeatureMaps db ! k) key = Some e \<and> e \<noteq> []}"
  using assms
  by (auto simp: placeInCell_def Let_def setDelete_def split: option.splits)


lemma settleOnIsland_fields:
  "programs (settleOnIsland cfg p k key db) = programs db"
  "islandFeatureMaps (settleOnIsland cfg p k key db)
     = islandFeatureMaps (placeInCell cfg k key p db)"
  "length (islands (settleOnIsland cfg p k key db)) = length (islands db)"
  "j \<noteq> k \<Longrightarrow> islands (settleOnIsland cfg p k key db) ! j = islands db ! j"
  "k < length (islands db) \<Longrightarrow>
     set (islands (settleOnIsland cfg p k key db) ! k)
       = insert (pid p) (set (islands (placeInCell cfg k key p db) ! k))"
  by (auto simp add: settleOnIsland_def Let_def updateArchive_fields placeInCell_programs
      placeInCell_lengths placeInCell_other setAdd_def)

lemma cellIds_nth: "k < length (islandFeatureMaps db) \<Longrightarrow>
  snd ` set (islandFeatureMaps db ! k) \<subseteq> cellIds db"
  by (auto simp: cellIds_def) (metis nth_mem snd_conv image_eqI)

lemma settleOnIsland_invariant:
  assumes inv: "cellInvariant db" and k: "k < length (islands db)"
    and fresh: "pid p \<notin> cellIds db"
  shows "cellInvariant (settleOnIsland cfg p k key db)"
proof -
  let ?db' = "settleOnIsland cfg p k key db"
  let ?old = "islandFeatureMaps db ! k"
  from inv have len: "length (islandFeatureMaps db) = length (islands db)"
    by (simp add: cellInvariant_def)
  from inv k have dk: "distinct (map fst ?old)" and ds: "distinct (map snd ?old)"
    and res: "\<forall>(featureKey, i) \<in> set ?old. i \<in> programIds db \<longrightarrow> i \<in> set (islands db ! k)"
    by (simp_all add: cellInvariant_def)
  have kf: "k < length (islandFeatureMaps db)" using k len by simp
  have notin: "pid p \<notin> snd ` set ?old" using fresh cellIds_nth [OF kf] by blast
  have pids: "programIds ?db' = programIds db"
    by (simp add: programIds_def settleOnIsland_fields)
  have lens: "length (islandFeatureMaps ?db') = length (islands ?db')"
    by (simp add: settleOnIsland_fields placeInCell_lengths len)
  have other: "distinct (map fst (islandFeatureMaps ?db' ! j))
          \<and> distinct (map snd (islandFeatureMaps ?db' ! j))
          \<and> (\<forall>(featureKey, i) \<in> set (islandFeatureMaps ?db' ! j).
                i \<in> programIds ?db' \<longrightarrow> i \<in> set (islands ?db' ! j))"
    if j: "j < length (islands db)" "j \<noteq> k" for j
    using inv j by (simp add: cellInvariant_def settleOnIsland_fields placeInCell_other pids)
  have here: "distinct (map fst (islandFeatureMaps ?db' ! k))
          \<and> distinct (map snd (islandFeatureMaps ?db' ! k))
          \<and> (\<forall>(featureKey, i) \<in> set (islandFeatureMaps ?db' ! k).
                i \<in> programIds ?db' \<longrightarrow> i \<in> set (islands ?db' ! k))"
  proof (cases "shouldReplace cfg db ?old key p")
    case False
    then have same: "placeInCell cfg k key p db = db" by (rule placeInCell_keep)
    show ?thesis
      using dk ds res k by (auto simp: settleOnIsland_fields same pids)
  next
    case True
    note r = placeInCell_replace [OF True k kf]
    have fm: "islandFeatureMaps ?db' ! k = AList.update key (pid p) ?old"
      by (simp add: settleOnIsland_fields r)
    have isl: "set (islands ?db' ! k)
                 = insert (pid p) (set (islands db ! k)
                     - {e. map_of ?old key = Some e \<and> e \<noteq> []})"
      using k by (simp add: settleOnIsland_fields r)
    have d1: "distinct (map fst (AList.update key (pid p) ?old))"
      using dk by (rule distinct_update)
    have d2: "distinct (map snd (AList.update key (pid p) ?old))"
      using ds notin by (rule distinct_snd_update)
    have d3: "i \<in> set (islands ?db' ! k)"
      if mem: "(key', i) \<in> set (AList.update key (pid p) ?old)" and live: "i \<in> programIds db"
      for key' i
    proof -
      from set_update_cases [OF dk mem]
      consider "key' = key" "i = pid p" | "key' \<noteq> key" "(key', i) \<in> set ?old" by blast
      then show ?thesis
      proof cases
        case 1
        then show ?thesis by (simp add: isl)
      next
        case 2
        with res live have "i \<in> set (islands db ! k)" by blast
        moreover have "map_of ?old key \<noteq> Some i"
        proof
          assume "map_of ?old key = Some i"
          from old_value_gone [OF dk this 2(2) ds] 2(1) show False by simp
        qed
        ultimately show ?thesis by (simp add: isl)
      qed
    qed
    show ?thesis
      unfolding fm pids using d1 d2 d3 by blast
  qed
  have every: "\<forall>j < length (islands ?db').
          distinct (map fst (islandFeatureMaps ?db' ! j))
          \<and> distinct (map snd (islandFeatureMaps ?db' ! j))
          \<and> (\<forall>(featureKey, i) \<in> set (islandFeatureMaps ?db' ! j).
                i \<in> programIds ?db' \<longrightarrow> i \<in> set (islands ?db' ! j))"
  proof (intro allI impI)
    fix j assume "j < length (islands ?db')"
    then have j: "j < length (islands db)" by (simp add: settleOnIsland_fields)
    show "distinct (map fst (islandFeatureMaps ?db' ! j))
          \<and> distinct (map snd (islandFeatureMaps ?db' ! j))
          \<and> (\<forall>(featureKey, i) \<in> set (islandFeatureMaps ?db' ! j).
                i \<in> programIds ?db' \<longrightarrow> i \<in> set (islands ?db' ! j))"
    proof (cases "j = k")
      case True
      then show ?thesis using here by simp
    next
      case False
      then show ?thesis using other [OF j] by simp
    qed
  qed
  show ?thesis
    unfolding cellInvariant_def by (rule conjI [OF lens every])
qed

lemma settleOnIsland_cellIds:
  assumes inv: "cellInvariant db" and k: "k < length (islands db)"
  shows "cellIds (settleOnIsland cfg p k key db) \<subseteq> insert (pid p) (cellIds db)"
proof
  fix i assume "i \<in> cellIds (settleOnIsland cfg p k key db)"
  then obtain fm where fm: "fm \<in> set (islandFeatureMaps (placeInCell cfg k key p db))"
    and i: "i \<in> snd ` set fm"
    by (auto simp: cellIds_def settleOnIsland_fields)
  from inv have len: "length (islandFeatureMaps db) = length (islands db)"
    by (simp add: cellInvariant_def)
  from fm obtain j where j: "j < length (islandFeatureMaps db)"
    and fmj: "fm = islandFeatureMaps (placeInCell cfg k key p db) ! j"
    by (auto simp: in_set_conv_nth placeInCell_lengths)
  have kf: "k < length (islandFeatureMaps db)" using k len by simp
  have sub: "snd ` set (islandFeatureMaps db ! m) \<subseteq> cellIds db"
    if "m < length (islandFeatureMaps db)" for m
    using that by (rule cellIds_nth)
  show "i \<in> insert (pid p) (cellIds db)"
  proof (cases "j = k")
    case False
    then have "fm = islandFeatureMaps db ! j"
      using fmj by (simp add: placeInCell_other)
    then show ?thesis using i sub [OF j] by blast
  next
    case True
    show ?thesis
    proof (cases "shouldReplace cfg db (islandFeatureMaps db ! k) key p")
      case False
      then have "fm = islandFeatureMaps db ! k"
        using fmj True by (simp add: placeInCell_keep)
      then show ?thesis using i sub [OF kf] by blast
    next
      case r: True
      have "fm = AList.update key (pid p) (islandFeatureMaps db ! k)"
        using fmj True placeInCell_replace(1) [OF r k kf] by simp
      with i snd_set_update [of key "pid p" "islandFeatureMaps db ! k"]
      have "i \<in> insert (pid p) (snd ` set (islandFeatureMaps db ! k))"
        by blast
      then show ?thesis using sub [OF kf] by blast
    qed
  qed
qed


subsection \<open>Population limit\<close>

lemma removePrograms_effect:
  assumes "removePrograms ps db = Inr db'"
  shows "islandFeatureMaps db' = islandFeatureMaps db
       \<and> length (islands db') = length (islands db)
       \<and> programIds db' \<subseteq> programIds db
       \<and> (\<forall>k < length (islands db). \<forall>i \<in> set (islands db ! k).
             i \<in> programIds db' \<longrightarrow> i \<in> set (islands db' ! k))"
  using assms
proof (induction ps arbitrary: db)
  case Nil
  then show ?case by simp
next
  case (Cons q ps)
  let ?db1 = "db\<lparr>programs := AList.delete (pid q) (programs db)\<rparr>"
  have ids: "programIds ?db1 = programIds db - {pid q}"
    by (auto simp: programIds_def delete_keys simp flip: set_map)
  show ?case
  proof (cases "metadataIsland db (metadata q)")
    case None
    let ?db2 = "?db1\<lparr>archive := setDelete (pid q) (archive ?db1)\<rparr>"
    from Cons.prems None have rec: "removePrograms ps ?db2 = Inr db'"
      by (simp add: Let_def)
    have ids2: "programIds ?db2 = programIds db - {pid q}"
      using ids by (simp add: programIds_def)
    from Cons.IH [OF rec] ids2 show ?thesis by auto
  next
    case (Some island)
    with Cons.prems have lt: "island < length (islands db)"
      by (auto simp: Let_def split: if_splits)
    let ?db2 = "?db1\<lparr>islands := (islands ?db1)
                         [island := setDelete (pid q) (islands ?db1 ! island)],
                      archive := setDelete (pid q) (archive ?db1)\<rparr>"
    from Cons.prems Some lt have rec: "removePrograms ps ?db2 = Inr db'"
      by (simp add: Let_def)
    have ids2: "programIds ?db2 = programIds db - {pid q}"
      using ids by (simp add: programIds_def)
    have isl: "i \<in> set (islands ?db2 ! k)"
      if "k < length (islands db)" "i \<in> set (islands db ! k)" "i \<noteq> pid q" for k i
      using that by (cases "k = island") (simp_all add: setDelete_def)
    from Cons.IH [OF rec] have
      a: "islandFeatureMaps db' = islandFeatureMaps db"
      and b: "length (islands db') = length (islands db)"
      and c: "programIds db' \<subseteq> programIds db - {pid q}"
      and d: "\<forall>k < length (islands db). \<forall>i \<in> set (islands ?db2 ! k).
             i \<in> programIds db' \<longrightarrow> i \<in> set (islands db' ! k)"
      using ids2 by simp_all
    have "\<forall>k < length (islands db). \<forall>i \<in> set (islands db ! k).
             i \<in> programIds db' \<longrightarrow> i \<in> set (islands db' ! k)"
    proof (intro allI impI ballI)
      fix k i
      assume k: "k < length (islands db)" and i: "i \<in> set (islands db ! k)"
        and live: "i \<in> programIds db'"
      from live c have "i \<noteq> pid q" by blast
      from isl [OF k i this] d k live show "i \<in> set (islands db' ! k)" by blast
    qed
    with a b c show ?thesis by blast
  qed
qed

lemma enforcePopulationLimit_effect:
  assumes "enforcePopulationLimit cfg ex db = Inr db'"
  shows "islandFeatureMaps db' = islandFeatureMaps db
       \<and> length (islands db') = length (islands db)
       \<and> programIds db' \<subseteq> programIds db
       \<and> (\<forall>k < length (islands db). \<forall>i \<in> set (islands db ! k).
             i \<in> programIds db' \<longrightarrow> i \<in> set (islands db' ! k))"
proof (cases "length (programs db) \<le> populationSize cfg")
  case True
  with assms have "db' = db" by (simp add: enforcePopulationLimit_def)
  then show ?thesis by simp
next
  case False
  with assms show ?thesis
    by (simp add: enforcePopulationLimit_def Let_def removePrograms_effect)
qed

lemma cellInvariant_shrink:
  assumes inv: "cellInvariant db"
    and fm: "islandFeatureMaps db' = islandFeatureMaps db"
    and len: "length (islands db') = length (islands db)"
    and ids: "programIds db' \<subseteq> programIds db"
    and isl: "\<forall>k < length (islands db). \<forall>i \<in> set (islands db ! k).
                i \<in> programIds db' \<longrightarrow> i \<in> set (islands db' ! k)"
  shows "cellInvariant db'"
  unfolding cellInvariant_def fm len
proof (intro conjI allI impI)
  show "length (islandFeatureMaps db) = length (islands db)"
    using inv by (simp add: cellInvariant_def)
next
  fix k assume k: "k < length (islands db)"
  with inv show "distinct (map fst (islandFeatureMaps db ! k))"
    and "distinct (map snd (islandFeatureMaps db ! k))"
    by (simp_all add: cellInvariant_def)
  from inv k have res: "\<forall>(featureKey, i) \<in> set (islandFeatureMaps db ! k).
                i \<in> programIds db \<longrightarrow> i \<in> set (islands db ! k)"
    by (simp add: cellInvariant_def)
  show "\<forall>(featureKey, i) \<in> set (islandFeatureMaps db ! k).
                i \<in> programIds db' \<longrightarrow> i \<in> set (islands db' ! k)"
    using res ids isl k by blast
qed

lemma cellIds_cong: "islandFeatureMaps db' = islandFeatureMaps db \<Longrightarrow> cellIds db' = cellIds db"
  by (simp add: cellIds_def)

lemma enforcePopulationLimit_invariant:
  assumes "cellInvariant db" "enforcePopulationLimit cfg ex db = Inr db'"
  shows "cellInvariant db'" and "usedIds db' \<subseteq> usedIds db"
proof -
  note e = enforcePopulationLimit_effect [OF assms(2)]
  from e show "cellInvariant db'"
    by (intro cellInvariant_shrink [OF assms(1)]) simp_all
  from e have "cellIds db' = cellIds db" by (intro cellIds_cong) simp
  with e show "usedIds db' \<subseteq> usedIds db" by (auto simp: usedIds_def)
qed


subsection \<open>add\<close>

lemma add_Inr:
  assumes "add cfg p0 it tgt db0 = Inr db'"
  obtains coords stats db7 where
    "calculateFeatureCoords cfg (storeProgram (stampIteration p0 it) it db0)
       (stampIteration p0 it) = (coords, stats)"
    "length (islands db0) \<noteq> 0"
    "addIsland db0 p0 it tgt < length (islandFeatureMaps db0)"
    "enforcePopulationLimit cfg (Some (pid p0))
       (settleOnIsland cfg (stampIteration p0 it) (addIsland db0 p0 it tgt)
          (featureCoordsToKey coords)
          (storeProgram (stampIteration p0 it) it db0\<lparr>featureStats := stats\<rparr>)) = Inr db7"
    "db' = updateIslandBestProgram cfg (stampIteration p0 it) (addIsland db0 p0 it tgt)
             (updateBestProgram cfg (stampIteration p0 it) db7)"
proof -
  let ?p = "stampIteration p0 it"
  let ?db2 = "storeProgram ?p it db0"
  obtain coords stats where
    c: "calculateFeatureCoords cfg ?db2 ?p = (coords, stats)"
    by (cases "calculateFeatureCoords cfg ?db2 ?p")
  let ?db3 = "?db2\<lparr>featureStats := stats\<rparr>"
  have idx: "targetIslandIndex ?db3 ?p tgt = targetIslandIndex ?db2 ?p tgt"
    by (simp add: targetIslandIndex_def split: option.splits)
  have k: "targetIslandIndex ?db3 ?p tgt mod length (islands ?db3) = addIsland db0 p0 it tgt"
    by (simp add: addIsland_def Let_def idx storeProgram_fields)
  from assms c have n: "length (islands db0) \<noteq> 0"
    by (auto simp: add_def Let_def storeProgram_fields split: if_splits)
  from assms c n have kf: "addIsland db0 p0 it tgt < length (islandFeatureMaps db0)"
    using k by (auto simp: add_def Let_def storeProgram_fields split: if_splits)
  from assms c n kf obtain db7 where
    e: "enforcePopulationLimit cfg (Some (pid ?p))
          (settleOnIsland cfg ?p (addIsland db0 p0 it tgt) (featureCoordsToKey coords) ?db3)
        = Inr db7"
    and d: "db' = updateIslandBestProgram cfg ?p (addIsland db0 p0 it tgt)
             (updateBestProgram cfg ?p db7)"
    using k by (auto simp: add_def Let_def storeProgram_fields split: if_splits sum.splits)
  from e have e': "enforcePopulationLimit cfg (Some (pid p0))
          (settleOnIsland cfg ?p (addIsland db0 p0 it tgt) (featureCoordsToKey coords) ?db3)
        = Inr db7"
    by (simp add: stampIteration_pid)
  from that [OF c n kf e' d] show thesis .
qed

lemma cellInvariant_store:
  assumes inv: "cellInvariant db" and fresh: "pid p \<notin> cellIds db"
  shows "cellInvariant (storeProgram p it db\<lparr>featureStats := stats\<rparr>)"
proof -
  let ?db = "storeProgram p it db\<lparr>featureStats := stats\<rparr>"
  have f: "islandFeatureMaps ?db = islandFeatureMaps db" "islands ?db = islands db"
    "programIds ?db = insert (pid p) (programIds db)"
    using storeProgram_fields [of p it db] by (simp_all add: programIds_def)
  have "i \<noteq> pid p" if "k < length (islands db)" "(key, i) \<in> set (islandFeatureMaps db ! k)"
    for k key i
  proof -
    from inv that(1) have "k < length (islandFeatureMaps db)" by (simp add: cellInvariant_def)
    from cellIds_nth [OF this] that(2) have "i \<in> cellIds db" by force
    with fresh show ?thesis by blast
  qed
  then show ?thesis
    using inv unfolding cellInvariant_def f by blast
qed

lemma add_invariant:
  assumes inv: "cellInvariant db0" and fresh: "pid p0 \<notin> usedIds db0"
    and add: "add cfg p0 it tgt db0 = Inr db'"
  shows "cellInvariant db'" and "usedIds db' \<subseteq> insert (pid p0) (usedIds db0)"
    and "length (islands db') = length (islands db0)"
proof -
  let ?p = "stampIteration p0 it"
  let ?k = "addIsland db0 p0 it tgt"
  from add obtain coords stats db7 where
    n: "length (islands db0) \<noteq> 0"
    and kf: "?k < length (islandFeatureMaps db0)"
    and e: "enforcePopulationLimit cfg (Some (pid p0))
       (settleOnIsland cfg ?p ?k (featureCoordsToKey coords)
          (storeProgram ?p it db0\<lparr>featureStats := stats\<rparr>)) = Inr db7"
    and d: "db' = updateIslandBestProgram cfg ?p ?k (updateBestProgram cfg ?p db7)"
    by (rule add_Inr)
  let ?db3 = "storeProgram ?p it db0\<lparr>featureStats := stats\<rparr>"
  let ?db6 = "settleOnIsland cfg ?p ?k (featureCoordsToKey coords) ?db3"
  have f3: "islandFeatureMaps ?db3 = islandFeatureMaps db0" "islands ?db3 = islands db0"
    "programIds ?db3 = insert (pid p0) (programIds db0)"
    using storeProgram_fields [of ?p it db0] by (simp_all add: programIds_def stampIteration_pid)
  have c3: "cellIds ?db3 = cellIds db0" using f3 by (intro cellIds_cong) simp
  have freshc: "pid ?p \<notin> cellIds db0" using fresh by (simp add: usedIds_def stampIteration_pid)
  have inv3: "cellInvariant ?db3" using inv freshc by (rule cellInvariant_store)
  have k3: "?k < length (islands ?db3)"
    using kf inv by (simp add: f3 cellInvariant_def)
  have fresh3: "pid ?p \<notin> cellIds ?db3" using freshc c3 by simp
  have inv6: "cellInvariant ?db6" using inv3 k3 fresh3 by (rule settleOnIsland_invariant)
  have c6: "cellIds ?db6 \<subseteq> insert (pid p0) (cellIds db0)"
    using settleOnIsland_cellIds [OF inv3 k3, of cfg ?p "featureCoordsToKey coords"] c3
    by (simp add: stampIteration_pid)
  have p6: "programIds ?db6 = insert (pid p0) (programIds db0)"
    using f3 by (simp add: programIds_def settleOnIsland_fields)
  have l6: "length (islands ?db6) = length (islands db0)"
    by (simp add: settleOnIsland_fields f3)
  note e7 = enforcePopulationLimit_invariant [OF inv6 e]
  have l7: "length (islands db7) = length (islands db0)"
    using enforcePopulationLimit_effect [OF e] l6 by simp
  have same: "islandFeatureMaps db' = islandFeatureMaps db7" "islands db' = islands db7"
    "programIds db' = programIds db7"
    unfolding d
    by (simp_all add: programIds_def updateIslandBestProgram_fields updateBestProgram_fields)
  have "cellInvariant db7" by (rule e7(1))
  then show "cellInvariant db'"
    unfolding cellInvariant_def same .
  have "usedIds db' = usedIds db7"
    using same by (simp add: usedIds_def cellIds_def)
  also have "\<dots> \<subseteq> usedIds ?db6" by (rule e7(2))
  also have "\<dots> \<subseteq> insert (pid p0) (usedIds db0)"
    using c6 p6 by (auto simp: usedIds_def)
  finally show "usedIds db' \<subseteq> insert (pid p0) (usedIds db0)" .
  show "length (islands db') = length (islands db0)"
    using same l7 by simp
qed


subsection \<open>Migration\<close>

lemma migrateInto_invariant:
  assumes "cellInvariant db" "\<forall>m \<ge> n. uuid m \<notin> usedIds db" "inj_on uuid {n..}"
    "migrateInto cfg uuid n ms t db = Inr (db', n')"
  shows "cellInvariant db' \<and> n \<le> n' \<and> (\<forall>m \<ge> n'. uuid m \<notin> usedIds db')
       \<and> length (islands db') = length (islands db)"
  using assms
proof (induction ms arbitrary: n db)
  case Nil
  then show ?case by simp
next
  case (Cons q ms)
  from Cons.prems(4) obtain db1 where
    a: "add cfg (q\<lparr>pid := uuid n\<rparr>) None (Some t) db = Inr db1"
    and rec: "migrateInto cfg uuid (n + 1) ms t db1 = Inr (db', n')"
    by (auto split: sum.splits)
  have fresh: "pid (q\<lparr>pid := uuid n\<rparr>) \<notin> usedIds db" using Cons.prems(2) by simp
  note ai = add_invariant [OF Cons.prems(1) fresh a]
  have u1: "\<forall>m \<ge> n + 1. uuid m \<notin> usedIds db1"
  proof (intro allI impI)
    fix m assume m: "n + 1 \<le> m"
    then have "uuid m \<noteq> uuid n"
      using inj_onD [OF Cons.prems(3), of m n] by auto
    moreover have "uuid m \<notin> usedIds db" using Cons.prems(2) m by simp
    ultimately show "uuid m \<notin> usedIds db1" using ai(2) by auto
  qed
  have inj1: "inj_on uuid {n + 1..}"
    using Cons.prems(3) by (rule inj_on_subset) auto
  from Cons.IH [OF ai(1) u1 inj1 rec] ai(3) show ?case by simp
qed

lemma migrateIslands_invariant:
  assumes "cellInvariant db" "\<forall>m \<ge> n. uuid m \<notin> usedIds db" "inj_on uuid {n..}"
    "migrateIslands cfg uuid is n db = Inr (db', n')"
  shows "cellInvariant db' \<and> n \<le> n' \<and> (\<forall>m \<ge> n'. uuid m \<notin> usedIds db')
       \<and> length (islands db') = length (islands db)"
  using assms
proof (induction "is" arbitrary: n db)
  case Nil
  then show ?case by simp
next
  case (Cons i rest)
  show ?case
  proof (cases "length (islands db ! i) = 0")
    case True
    with Cons.prems(4) have "migrateIslands cfg uuid rest n db = Inr (db', n')"
      by (simp add: Let_def)
    from Cons.IH [OF Cons.prems(1,2,3) this] show ?thesis .
  next
    case False
    let ?ms = "slice0 (numMigrants cfg) (sortDescending cfg (lookupAll db (islands db ! i)))"
    from Cons.prems(4) False obtain db1 n1 where
      m: "migrateInto cfg uuid n ?ms ((i + 1) mod length (islands db)) db = Inr (db1, n1)"
      and rec: "migrateIslands cfg uuid rest n1 db1 = Inr (db', n')"
      by (auto simp: Let_def split: sum.splits)
    from migrateInto_invariant [OF Cons.prems(1,2,3) m] have
      inv1: "cellInvariant db1" and le: "n \<le> n1"
      and u1: "\<forall>m \<ge> n1. uuid m \<notin> usedIds db1"
      and l1: "length (islands db1) = length (islands db)" by simp_all
    have "{n1..} \<subseteq> {n..}" using le by auto
    with Cons.prems(3) have inj1: "inj_on uuid {n1..}"
      by (rule inj_on_subset)
    from Cons.IH [OF inv1 u1 inj1 rec] le l1 show ?thesis by simp
  qed
qed

lemma migratePrograms_invariant:
  assumes "cellInvariant db" "\<forall>m \<ge> n. uuid m \<notin> usedIds db" "inj_on uuid {n..}"
    "migratePrograms cfg uuid n db = Inr (db', n')"
  shows "cellInvariant db'" and "length (islands db') = length (islands db)"
proof -
  from assms(4) obtain db1 where
    m: "migrateIslands cfg uuid [0..<length (islands db)] n db = Inr (db1, n')"
    and d: "db' = db1\<lparr>lastMigrationGeneration :=
                      fold (\<lambda>g m. min (enat g) m) (islandGenerations db1) \<infinity>\<rparr>"
    by (auto simp: migratePrograms_def split: sum.splits)
  from migrateIslands_invariant [OF assms(1,2,3) m] have "cellInvariant db1"
    and l: "length (islands db1) = length (islands db)" by simp_all
  then show "cellInvariant db'" unfolding d by (simp add: cellInvariant_def programIds_def)
  show "length (islands db') = length (islands db)" unfolding d using l by simp
qed

subsection \<open>Reachable states\<close>

lemma cellInvariant_new: "cellInvariant (ProgramDatabase_new cfg heap)"
  by (simp add: cellInvariant_def ProgramDatabase_new_def)

lemma reachable_invariant:
  "reachable cfg db \<Longrightarrow> cellInvariant db \<and> length (islands db) = numIslands cfg"
proof (induction rule: reachable.induct)
  case (reachable_new heap)
  show ?case by (simp add: cellInvariant_new) (simp add: ProgramDatabase_new_def)
next
  case (reachable_add db program iterationArg targetIsland db')
  then show ?case using add_invariant [of db program cfg iterationArg targetIsland db'] by simp
next
  case (reachable_migrate db n uuid db' n')
  then show ?case using migratePrograms_invariant [of db n uuid cfg db' n'] by simp
next
  case (reachable_enforce db excludeProgramId db')
  then show ?case
    using enforcePopulationLimit_invariant(1) [of db cfg excludeProgramId db']
      enforcePopulationLimit_effect [of cfg excludeProgramId db db'] by simp
qed

subsection \<open>The operations return\<close>

lemma removePrograms_returns:
  assumes "\<forall>q \<in> set ps. \<exists>island < length (islands db). metadataIsland db (metadata q) = Some island"
  shows "\<exists>db'. removePrograms ps db = Inr db' \<and> set (programs db') \<subseteq> set (programs db)
           \<and> metadataIsland db' = metadataIsland db
           \<and> length (islands db') = length (islands db)"
  using assms
proof (induction ps arbitrary: db)
  case Nil
  show ?case by simp
next
  case (Cons q ps)
  from Cons.prems obtain island where i: "island < length (islands db)"
    "metadataIsland db (metadata q) = Some island" by auto
  let ?db2 = "db\<lparr>programs := AList.delete (pid q) (programs db),
                 islands := (islands db)[island := setDelete (pid q) (islands db ! island)],
                 archive := setDelete (pid q) (archive db)\<rparr>"
  have step: "removePrograms (q # ps) db = removePrograms ps ?db2"
    using i by (simp add: Let_def)
  have "\<forall>q \<in> set ps. \<exists>island < length (islands ?db2).
          metadataIsland ?db2 (metadata q) = Some island"
    using Cons.prems by simp
  from Cons.IH [OF this] obtain db' where
    r: "removePrograms ps ?db2 = Inr db'" "set (programs db') \<subseteq> set (programs ?db2)"
    "metadataIsland db' = metadataIsland ?db2" "length (islands db') = length (islands ?db2)"
    by blast
  have "set (programs ?db2) \<subseteq> set (programs db)"
    by (auto simp: AList.delete_eq)
  with r step show ?case by auto
qed

lemma enforcePopulationLimit_returns:
  assumes "metadataInvariant db"
  shows "\<exists>db'. enforcePopulationLimit cfg ex db = Inr db' \<and> metadataInvariant db'"
proof (cases "length (programs db) \<le> populationSize cfg")
  case True
  then show ?thesis using assms by (simp add: enforcePopulationLimit_def)
next
  case False
  let ?ps = "take (length (programs db) - populationSize cfg)
               (sortAscending cfg (filter (\<lambda>p. Some (pid p) \<noteq> ex) (map snd (programs db))))"
  have sub: "set ?ps \<subseteq> snd ` set (programs db)"
  proof -
    have "set ?ps \<subseteq> set (sortAscending cfg (filter (\<lambda>p. Some (pid p) \<noteq> ex)
                                               (map snd (programs db))))"
      by (rule set_take_subset)
    also have "\<dots> \<subseteq> snd ` set (programs db)"
      by (auto simp: sortAscending_def)
    finally show ?thesis .
  qed
  have "\<forall>q \<in> set ?ps. \<exists>island < length (islands db).
          metadataIsland db (metadata q) = Some island"
    using assms sub unfolding metadataInvariant_def by fastforce
  from removePrograms_returns [OF this] obtain db' where
    r: "removePrograms ?ps db = Inr db'" "set (programs db') \<subseteq> set (programs db)"
    "metadataIsland db' = metadataIsland db" "length (islands db') = length (islands db)"
    by blast
  have "metadataInvariant db'"
    using assms r(2,3,4) unfolding metadataInvariant_def by fastforce
  with r(1) False show ?thesis
    by (simp add: enforcePopulationLimit_def Let_def)
qed

lemma placeInCell_metadata:
  "metadataIsland (placeInCell cfg k key p db) = metadataIsland db"
  by (simp add: placeInCell_def Let_def split: option.splits)

lemma set_update_subset: "set (AList.update k v al) \<subseteq> insert (k, v) (set al)"
  by (induction al) auto

lemma settleOnIsland_metadata:
  assumes "metadataInvariant db" and "k < length (islands db)"
  shows "metadataInvariant
           (settleOnIsland cfg p k key (storeProgram p it db\<lparr>featureStats := stats\<rparr>))"
proof -
  let ?db3 = "storeProgram p it db\<lparr>featureStats := stats\<rparr>"
  let ?db6 = "settleOnIsland cfg p k key ?db3"
  have progs: "set (programs ?db6) \<subseteq> insert (pid p, p) (set (programs db))"
    using set_update_subset [of "pid p" p "programs db"]
    by (simp add: settleOnIsland_fields storeProgram_def Let_def split: option.splits)
  have heap: "metadataIsland ?db6 = (metadataIsland db)(metadata p \<mapsto> k)"
    by (simp add: settleOnIsland_def Let_def updateArchive_fields placeInCell_metadata
        storeProgram_def split: option.splits)
  have len: "length (islands ?db6) = length (islands db)"
    by (simp add: settleOnIsland_fields storeProgram_fields)
  show ?thesis
    unfolding metadataInvariant_def heap len
  proof (intro ballI, clarify)
    fix i q assume "(i, q) \<in> set (programs ?db6)"
    with progs consider "q = p" | "(i, q) \<in> set (programs db)" by blast
    then show "\<exists>island < length (islands db).
                 ((metadataIsland db)(metadata p \<mapsto> k)) (metadata q) = Some island"
    proof cases
      case 1
      then show ?thesis using assms(2) by simp
    next
      case 2
      with assms(1) obtain j where "j < length (islands db)"
        "metadataIsland db (metadata q) = Some j"
        unfolding metadataInvariant_def by blast
      then show ?thesis using assms(2) by (cases "metadata q = metadata p") auto
    qed
  qed
qed

lemma metadataInvariant_best:
  "metadataInvariant db \<Longrightarrow>
   metadataInvariant (updateIslandBestProgram cfg p k (updateBestProgram cfg p db))"
proof -
  have "metadataIsland (updateIslandBestProgram cfg p k (updateBestProgram cfg p db))
          = metadataIsland db"
    by (simp add: updateIslandBestProgram_def updateBestProgram_def Let_def
        split: option.splits)
  then show "metadataInvariant db \<Longrightarrow>
   metadataInvariant (updateIslandBestProgram cfg p k (updateBestProgram cfg p db))"
    by (simp add: metadataInvariant_def updateIslandBestProgram_fields
        updateBestProgram_fields)
qed

lemma add_returns:
  assumes inv: "length (islandFeatureMaps db) = length (islands db)"
    and meta: "metadataInvariant db"
    and n: "0 < length (islands db)"
  shows "\<exists>db'. add cfg p0 it tgt db = Inr db' \<and> metadataInvariant db'"
proof -
  let ?p = "stampIteration p0 it"
  let ?db2 = "storeProgram ?p it db"
  obtain coords stats where c: "calculateFeatureCoords cfg ?db2 ?p = (coords, stats)"
    by (cases "calculateFeatureCoords cfg ?db2 ?p")
  let ?db3 = "?db2\<lparr>featureStats := stats\<rparr>"
  let ?k = "targetIslandIndex ?db3 ?p tgt mod length (islands ?db3)"
  have l3: "length (islands ?db3) = length (islands db)"
    "length (islandFeatureMaps ?db3) = length (islands db)"
    using inv by (simp_all add: storeProgram_fields)
  have k: "?k < length (islands db)" using n l3 by simp
  let ?db6 = "settleOnIsland cfg ?p ?k (featureCoordsToKey coords) ?db3"
  have m6: "metadataInvariant ?db6" using meta k by (rule settleOnIsland_metadata)
  from enforcePopulationLimit_returns [OF m6] obtain db7 where
    e: "enforcePopulationLimit cfg (Some (pid ?p)) ?db6 = Inr db7" and m7: "metadataInvariant db7"
    by blast
  have "add cfg p0 it tgt db
          = Inr (updateIslandBestProgram cfg ?p ?k (updateBestProgram cfg ?p db7))"
    using c n e k unfolding l3
    by (simp add: add_def Let_def storeProgram_fields inv not_le)
  with metadataInvariant_best [OF m7] show ?thesis by blast
qed


lemma add_lengths:
  assumes "add cfg p0 it tgt db = Inr db'"
  shows "length (islands db') = length (islands db)"
    and "length (islandFeatureMaps db') = length (islandFeatureMaps db)"
    and "0 < length (islands db)"
proof -
  let ?p = "stampIteration p0 it"
  let ?k = "addIsland db p0 it tgt"
  from assms obtain coords stats db7 where
    n: "length (islands db) \<noteq> 0"
    and e: "enforcePopulationLimit cfg (Some (pid p0))
       (settleOnIsland cfg ?p ?k (featureCoordsToKey coords)
          (storeProgram ?p it db\<lparr>featureStats := stats\<rparr>)) = Inr db7"
    and d: "db' = updateIslandBestProgram cfg ?p ?k (updateBestProgram cfg ?p db7)"
    by (rule add_Inr)
  note f = enforcePopulationLimit_effect [OF e]
  show "length (islands db') = length (islands db)"
    unfolding d using f
    by (simp add: updateIslandBestProgram_fields updateBestProgram_fields
        settleOnIsland_fields storeProgram_fields)
  show "length (islandFeatureMaps db') = length (islandFeatureMaps db)"
    unfolding d using f
    by (simp add: updateIslandBestProgram_fields updateBestProgram_fields
        settleOnIsland_fields placeInCell_lengths storeProgram_fields)
  show "0 < length (islands db)" using n by simp
qed

lemma add_metadata:
  assumes "add cfg p0 it tgt db = Inr db'"
    and "length (islandFeatureMaps db) = length (islands db)" and "metadataInvariant db"
  shows "metadataInvariant db'"
  using add_returns [OF assms(2,3) add_lengths(3) [OF assms(1)], of cfg p0 it tgt] assms(1)
  by auto

lemma migrateInto_returns:
  assumes "length (islandFeatureMaps db) = length (islands db)" "metadataInvariant db"
    "0 < length (islands db)"
  shows "\<exists>db' n'. migrateInto cfg uuid n ms t db = Inr (db', n')
           \<and> length (islandFeatureMaps db') = length (islands db')
           \<and> length (islands db') = length (islands db)
           \<and> metadataInvariant db'"
  using assms
proof (induction ms arbitrary: n db)
  case Nil
  then show ?case by simp
next
  case (Cons q ms)
  from add_returns [OF Cons.prems, of cfg "q\<lparr>pid := uuid n\<rparr>" None "Some t"]
  obtain db1 where a: "add cfg (q\<lparr>pid := uuid n\<rparr>) None (Some t) db = Inr db1"
    and m1: "metadataInvariant db1" by blast
  note l = add_lengths [OF a]
  have l1: "length (islandFeatureMaps db1) = length (islands db1)"
    using l Cons.prems(1) by simp
  have n1: "0 < length (islands db1)" using l Cons.prems(3) by simp
  from Cons.IH [OF l1 m1 n1, of "n + 1"] a l show ?case by auto
qed

lemma migrateIslands_returns:
  assumes "length (islandFeatureMaps db) = length (islands db)" "metadataInvariant db"
    "\<forall>i \<in> set is. i < length (islands db)"
  shows "\<exists>db' n'. migrateIslands cfg uuid is n db = Inr (db', n')
           \<and> length (islandFeatureMaps db') = length (islands db')
           \<and> length (islands db') = length (islands db)
           \<and> metadataInvariant db'"
  using assms
proof (induction "is" arbitrary: n db)
  case Nil
  then show ?case by simp
next
  case (Cons i rest)
  have rest: "\<forall>j \<in> set rest. j < length (islands db)" using Cons.prems(3) by simp
  show ?case
  proof (cases "length (islands db ! i) = 0")
    case True
    then show ?thesis
      using Cons.IH [OF Cons.prems(1,2) rest, of n] by (simp add: Let_def)
  next
    case False
    have pos: "0 < length (islands db)" using Cons.prems(3) by auto
    let ?ms = "slice0 (numMigrants cfg) (sortDescending cfg (lookupAll db (islands db ! i)))"
    from migrateInto_returns [OF Cons.prems(1,2) pos, of cfg uuid n ?ms
        "(i + 1) mod length (islands db)"]
    obtain db1 n1 where
      m: "migrateInto cfg uuid n ?ms ((i + 1) mod length (islands db)) db = Inr (db1, n1)"
      and l1: "length (islandFeatureMaps db1) = length (islands db1)"
      and l2: "length (islands db1) = length (islands db)"
      and m1: "metadataInvariant db1" by blast
    have rest1: "\<forall>j \<in> set rest. j < length (islands db1)" using rest l2 by simp
    from Cons.IH [OF l1 m1 rest1, of n1] False m l2 show ?thesis by (auto simp: Let_def)
  qed
qed

lemma migratePrograms_returns:
  assumes "length (islandFeatureMaps db) = length (islands db)" "metadataInvariant db"
  shows "\<exists>db' n'. migratePrograms cfg uuid n db = Inr (db', n') \<and> metadataInvariant db'"
proof -
  have "\<forall>i \<in> set [0..<length (islands db)]. i < length (islands db)" by simp
  from migrateIslands_returns [OF assms this, of cfg uuid n]
  obtain db1 n1 where
    m: "migrateIslands cfg uuid [0..<length (islands db)] n db = Inr (db1, n1)"
    and m1: "metadataInvariant db1" by blast
  have "metadataInvariant (db1\<lparr>lastMigrationGeneration :=
                      fold (\<lambda>g m. min (enat g) m) (islandGenerations db1) \<infinity>\<rparr>)"
    using m1 by (simp add: metadataInvariant_def)
  with m show ?thesis by (simp add: migratePrograms_def)
qed

lemma reachable_metadata: "reachable cfg db \<Longrightarrow> metadataInvariant db"
proof (induction rule: reachable.induct)
  case (reachable_new heap)
  show ?case by (simp add: metadataInvariant_def ProgramDatabase_new_def)
next
  case (reachable_add db program iterationArg targetIsland db')
  from reachable_invariant [OF reachable_add.hyps(1)]
  have "length (islandFeatureMaps db) = length (islands db)" by (simp add: cellInvariant_def)
  from add_metadata [OF reachable_add.hyps(3) this reachable_add.IH] show ?case .
next
  case (reachable_migrate db n uuid db' n')
  from reachable_invariant [OF reachable_migrate.hyps(1)]
  have "length (islandFeatureMaps db) = length (islands db)" by (simp add: cellInvariant_def)
  from migratePrograms_returns [OF this reachable_migrate.IH, of cfg uuid n]
    reachable_migrate.hyps(4)
  show ?case by auto
next
  case (reachable_enforce db excludeProgramId db')
  from enforcePopulationLimit_returns [OF reachable_enforce.IH, of cfg excludeProgramId]
    reachable_enforce.hyps(2)
  show ?case by auto
qed

text \<open>On a reachable state of a database with at least one island, the three operations
  return: none of them raises.\<close>

lemma operations_return_on_reachable:
  assumes "reachable cfg db" "0 < numIslands cfg"
  shows "\<exists>db'. add cfg program iterationArg targetIsland db = Inr db'"
    and "\<exists>db' n'. migratePrograms cfg uuid n db = Inr (db', n')"
    and "\<exists>db'. enforcePopulationLimit cfg excludeProgramId db = Inr db'"
proof -
  from reachable_invariant [OF assms(1)] assms(2)
  have l: "length (islandFeatureMaps db) = length (islands db)" and n: "0 < length (islands db)"
    by (simp_all add: cellInvariant_def)
  note m = reachable_metadata [OF assms(1)]
  from add_returns [OF l m n, of cfg program iterationArg targetIsland]
  show "\<exists>db'. add cfg program iterationArg targetIsland db = Inr db'" by blast
  from migratePrograms_returns [OF l m, of cfg uuid n]
  show "\<exists>db' n'. migratePrograms cfg uuid n db = Inr (db', n')" by blast
  from enforcePopulationLimit_returns [OF m, of cfg excludeProgramId]
  show "\<exists>db'. enforcePopulationLimit cfg excludeProgramId db = Inr db'" by blast
qed

subsection \<open>The example runs\<close>

lemmas add_eval = add_def stampIteration_def storeProgram_def settleOnIsland_def
  calculateFeatureCoords_def valueTobin_def featureValue_def binsFor_def
  calculateDiversity_def featureCoordsToKey_def intToString_def natToString.simps
  targetIslandIndex_def placeInCell_def shouldReplace_def setAdd_def setDelete_def
  updateArchive_def enforcePopulationLimit_def updateBestProgram_def
  updateIslandBestProgram_def Let_def isBetter_def fitness_def getFitnessScore_def
  sortAscending_def lookupAll_def exampleProgram_def boundaryConfig_def
  defaultDatabaseConfig_def

lemma add_p1:
  "add boundaryConfig (exampleProgram ''p1'' 1 10 1) (Some 0) (Some 0)
     (ProgramDatabase_new boundaryConfig Map.empty) = Inr dbAfterP1"
  by (simp add: add_eval ProgramDatabase_new_def dbAfterP1_def)

lemma add_p2:
  "add boundaryConfig (exampleProgram ''p2'' 2 20 2) (Some 1) (Some 0) dbAfterP1
     = Inr dbAfterP2"
  by (simp add: add_eval dbAfterP1_def dbAfterP2_def)

lemma replicate5: "replicate 5 x = [x, x, x, x, x]"
  by (simp add: eval_nat_numeral)

lemma add_two_residents:
  "add defaultDatabaseConfig (exampleProgram ''p2'' 1 20 2) (Some 1) (Some 0)
     (projr (add defaultDatabaseConfig (exampleProgram ''p1'' 3 10 1) (Some 0) (Some 0)
               (ProgramDatabase_new defaultDatabaseConfig Map.empty)))
   = Inr dbTwoResidents"
  by (simp add: add_eval ProgramDatabase_new_def dbTwoResidents_def replicate5)

lemma usedIds_new: "usedIds (ProgramDatabase_new cfg heap) = {}"
  by (simp add: usedIds_def programIds_def cellIds_def ProgramDatabase_new_def)

lemma reachable_dbAfterP1: "reachable boundaryConfig dbAfterP1"
proof -
  have "pid (exampleProgram ''p1'' 1 10 1) \<notin> usedIds (ProgramDatabase_new boundaryConfig Map.empty)"
    by (simp add: usedIds_new)
  from reachable_add [OF reachable_new this add_p1] show ?thesis .
qed

lemma reachable_dbAfterP2: "reachable boundaryConfig dbAfterP2"
proof -
  have "pid (exampleProgram ''p2'' 2 20 2) \<notin> usedIds dbAfterP1"
    by (simp add: usedIds_def programIds_def cellIds_def dbAfterP1_def exampleProgram_def)
  from reachable_add [OF reachable_dbAfterP1 this add_p2] show ?thesis .
qed

subsection \<open>Cells and residents\<close>

text \<open>
  Claim C1, as the code has it. In every database state reached from a new database by
  \<open>add\<close>, \<open>migratePrograms\<close> and \<open>enforcePopulationLimit\<close>, with identifiers that are
  never used twice, every island has a cell map, the cell map of island \<open>k\<close> holds one
  program identifier for a feature key, and an identifier stored in a cell is a resident
  of island \<open>k\<close> if it is still in the program table. Population-limit enforcement
  removes a program from the table and from its island and leaves its cell as it is.
\<close>

theorem cells_hold_residents:
  assumes "reachable cfg db" and "k < numIslands cfg"
  shows "length (islandFeatureMaps db) = numIslands cfg
       \<and> length (islands db) = numIslands cfg
       \<and> distinct (map fst (islandFeatureMaps db ! k))
       \<and> (\<forall>featureKey i. map_of (islandFeatureMaps db ! k) featureKey = Some i
             \<and> i \<in> programIds db \<longrightarrow> i \<in> set (islands db ! k))"
proof -
  from reachable_invariant [OF assms(1)] have inv: "cellInvariant db"
    and n: "length (islands db) = numIslands cfg" by simp_all
  from inv assms(2) n have d: "distinct (map fst (islandFeatureMaps db ! k))"
    and res: "\<forall>(featureKey, i) \<in> set (islandFeatureMaps db ! k).
                i \<in> programIds db \<longrightarrow> i \<in> set (islands db ! k)"
    and l: "length (islandFeatureMaps db) = numIslands cfg"
    by (simp_all add: cellInvariant_def)
  have "i \<in> set (islands db ! k)"
    if "map_of (islandFeatureMaps db ! k) featureKey = Some i" "i \<in> programIds db"
    for featureKey i
  proof -
    from that(1) have "(featureKey, i) \<in> set (islandFeatureMaps db ! k)" by (rule map_of_SomeD)
    with res that(2) show ?thesis by blast
  qed
  with d l n show ?thesis by blast
qed

theorem cells_hold_residents_witness:
  "reachable boundaryConfig dbAfterP1 \<and> (0::nat) < numIslands boundaryConfig
   \<and> map_of (islandFeatureMaps dbAfterP1 ! 0) ''0,0'' = Some ''p1''
   \<and> ''p1'' \<in> programIds dbAfterP1
   \<and> ''p1'' \<in> set (islands dbAfterP1 ! 0)"
proof -
  have h1: "(0::nat) < numIslands boundaryConfig"
    by (simp add: boundaryConfig_def defaultDatabaseConfig_def)
  have h2: "map_of (islandFeatureMaps dbAfterP1 ! 0) ''0,0'' = Some ''p1''"
    by (simp add: dbAfterP1_def)
  have h3: "''p1'' \<in> programIds dbAfterP1"
    by (simp add: programIds_def dbAfterP1_def)
  from cells_hold_residents [OF reachable_dbAfterP1 h1] h2 h3
  have "''p1'' \<in> set (islands dbAfterP1 ! 0)" by blast
  with reachable_dbAfterP1 h1 h2 h3 show ?thesis by blast
qed

text \<open>
  Claim C1 as stated fails. With a population of one program on one island, \<open>p1\<close> is
  added and then \<open>p2\<close>, which falls into another cell; the population limit removes
  \<open>p1\<close> from the table and from the island, and the cell \<open>0,0\<close> of island 0 still holds
  \<open>p1\<close>, which is no resident.
\<close>

theorem cell_of_evicted_program_counterexample:
  "reachable boundaryConfig dbAfterP2
   \<and> map_of (islandFeatureMaps dbAfterP2 ! 0) ''0,0'' = Some ''p1''
   \<and> ''p1'' \<notin> set (islands dbAfterP2 ! 0)"
  using reachable_dbAfterP2 by (simp add: dbAfterP2_def)

subsection \<open>Replacement of a cell's occupant\<close>

text \<open>
  Claim C2, as the code has it. When \<open>add\<close> finds the cell of the incoming program's
  feature key on the target island occupied by another program that is still in the
  program table, and the cell holds the incoming program afterwards, then the incoming
  program's fitness is strictly greater than the occupant's. An occupant that is no
  longer in the table is replaced without a comparison.
\<close>

theorem add_replaces_live_occupant_only_by_better:
  assumes add: "add cfg program iterationArg targetIsland db = Inr db'"
    and key: "addFeatureKey cfg db program iterationArg = featureKey"
    and occ: "map_of (islandFeatureMaps db ! addIsland db program iterationArg targetIsland)
                featureKey = Some occupant"
    and live: "map_of (programs db) occupant = Some existing"
    and new: "map_of (islandFeatureMaps db' ! addIsland db program iterationArg targetIsland)
                featureKey = Some (pid program)"
    and ne: "occupant \<noteq> pid program"
  shows "fitness cfg program > fitness cfg existing"
proof -
  let ?p = "stampIteration program iterationArg"
  let ?k = "addIsland db program iterationArg targetIsland"
  from add obtain coords stats db7 where
    c: "calculateFeatureCoords cfg (storeProgram ?p iterationArg db) ?p = (coords, stats)"
    and n: "length (islands db) \<noteq> 0"
    and kf: "?k < length (islandFeatureMaps db)"
    and e: "enforcePopulationLimit cfg (Some (pid program))
       (settleOnIsland cfg ?p ?k (featureCoordsToKey coords)
          (storeProgram ?p iterationArg db\<lparr>featureStats := stats\<rparr>)) = Inr db7"
    and d: "db' = updateIslandBestProgram cfg ?p ?k (updateBestProgram cfg ?p db7)"
    by (rule add_Inr)
  let ?db3 = "storeProgram ?p iterationArg db\<lparr>featureStats := stats\<rparr>"
  from key c have fk: "featureCoordsToKey coords = featureKey"
    by (simp add: addFeatureKey_def Let_def)
  have f3: "islandFeatureMaps ?db3 = islandFeatureMaps db"
    by (simp add: storeProgram_fields)
  have maps: "islandFeatureMaps db' = islandFeatureMaps (placeInCell cfg ?k featureKey ?p ?db3)"
    unfolding d using enforcePopulationLimit_effect [OF e]
    by (simp add: updateIslandBestProgram_fields updateBestProgram_fields
        settleOnIsland_fields fk)
  have repl: "shouldReplace cfg ?db3 (islandFeatureMaps ?db3 ! ?k) featureKey ?p"
  proof (rule ccontr)
    assume "\<not> shouldReplace cfg ?db3 (islandFeatureMaps ?db3 ! ?k) featureKey ?p"
    then have "placeInCell cfg ?k featureKey ?p ?db3 = ?db3" by (rule placeInCell_keep)
    with maps f3 have "islandFeatureMaps db' = islandFeatureMaps db" by simp
    with occ new ne show False by simp
  qed
  have look: "map_of (programs ?db3) occupant = Some existing"
    using live ne
    by (simp add: storeProgram_def Let_def update_conv' stampIteration_pid split: option.splits)
  from repl occ look have "isBetter cfg ?p existing"
    by (simp add: shouldReplace_def f3)
  then show ?thesis
    by (simp add: isBetter_def fitness_def stampIteration_def split: option.splits)
qed


theorem add_replaces_live_occupant_only_by_better_witness:
  "\<not> isl (add boundaryConfig (exampleProgram ''p4'' 2 10 4) (Some 1) (Some 0) dbAfterP1)
   \<and> addFeatureKey boundaryConfig dbAfterP1 (exampleProgram ''p4'' 2 10 4) (Some 1)
       = ''0,0''
   \<and> addIsland dbAfterP1 (exampleProgram ''p4'' 2 10 4) (Some 1) (Some 0) = 0
   \<and> map_of (islandFeatureMaps dbAfterP1 ! 0) ''0,0'' = Some ''p1''
   \<and> map_of (programs dbAfterP1) ''p1'' = Some (exampleProgram ''p1'' 1 10 1)
   \<and> map_of (islandFeatureMaps
        (projr (add boundaryConfig (exampleProgram ''p4'' 2 10 4) (Some 1) (Some 0) dbAfterP1))
        ! 0) ''0,0'' = Some ''p4''
   \<and> fitness boundaryConfig (exampleProgram ''p4'' 2 10 4)
       > fitness boundaryConfig (exampleProgram ''p1'' 1 10 1)"
proof -
  let ?p4 = "exampleProgram ''p4'' 2 10 4"
  let ?r = "add boundaryConfig ?p4 (Some 1) (Some 0) dbAfterP1"
  have r: "\<not> isl ?r" by (simp add: add_eval dbAfterP1_def)
  then have a: "?r = Inr (projr ?r)" by simp
  have k: "addIsland dbAfterP1 ?p4 (Some 1) (Some 0) = 0"
    by (simp add: addIsland_def dbAfterP1_def)
  have key: "addFeatureKey boundaryConfig dbAfterP1 ?p4 (Some 1) = ''0,0''"
    by (simp add: addFeatureKey_def add_eval dbAfterP1_def)
  have occ: "map_of (islandFeatureMaps dbAfterP1 ! 0) ''0,0'' = Some ''p1''"
    by (simp add: dbAfterP1_def)
  have live: "map_of (programs dbAfterP1) ''p1'' = Some (exampleProgram ''p1'' 1 10 1)"
    by (simp add: dbAfterP1_def)
  have new: "map_of (islandFeatureMaps (projr ?r) ! 0) ''0,0'' = Some ''p4''"
    by (simp add: add_eval dbAfterP1_def)
  have pid4: "pid ?p4 = ''p4''" by (simp add: exampleProgram_def)
  have ne: "''p1'' \<noteq> pid ?p4" by (simp add: pid4)
  have "fitness boundaryConfig ?p4 > fitness boundaryConfig (exampleProgram ''p1'' 1 10 1)"
    using add_replaces_live_occupant_only_by_better [OF a key,
        where occupant = "''p1''" and existing = "exampleProgram ''p1'' 1 10 1"]
      occ live new ne
    unfolding k pid4 by blast
  with r key k occ live new show ?thesis by blast
qed

text \<open>
  Claim C2 as stated fails. After \<open>p1\<close> (fitness 1) was evicted, its identifier is still
  in the cell \<open>0,0\<close>. The program \<open>p3\<close> with fitness 0.5 falls into this cell and
  replaces the occupant, although its fitness is not greater.
\<close>

theorem stale_occupant_replaced_counterexample:
  "addIsland dbAfterP2 (exampleProgram ''p3'' 0.5 10 3) (Some 2) (Some 0) = 0
   \<and> addFeatureKey boundaryConfig dbAfterP2 (exampleProgram ''p3'' 0.5 10 3) (Some 2)
       = ''0,0''
   \<and> map_of (islandFeatureMaps dbAfterP2 ! 0) ''0,0'' = Some ''p1''
   \<and> \<not> isl (add boundaryConfig (exampleProgram ''p3'' 0.5 10 3) (Some 2) (Some 0) dbAfterP2)
   \<and> map_of (islandFeatureMaps
        (projr (add boundaryConfig (exampleProgram ''p3'' 0.5 10 3) (Some 2) (Some 0)
                  dbAfterP2)) ! 0) ''0,0'' = Some ''p3''
   \<and> \<not> fitness boundaryConfig (exampleProgram ''p3'' 0.5 10 3)
         > fitness boundaryConfig (exampleProgram ''p1'' 1 10 1)"
  by (simp add: addIsland_def addFeatureKey_def add_eval dbAfterP2_def)

subsection \<open>Sampling\<close>





text \<open>The first index at which the running sum exceeds \<open>r\<close> is the index whose weight
  covers \<open>r\<close>: a draw in proportion to the weights. There is one when \<open>r\<close> is below the
  sum of the weights.\<close>

lemma cumulativeIndex_interval:
  assumes "0 \<le> r" "cumulativeIndex ws r i"
  shows "sum_list (take i ws) \<le> r \<and> r < sum_list (take i ws) + ws ! i"
proof -
  from assms(2) have i: "i < length ws" and up: "r < sum_list (take (Suc i) ws)"
    and low: "\<forall>j<i. sum_list (take (Suc j) ws) \<le> r" by (simp_all add: cumulativeIndex_def)
  have "sum_list (take i ws) \<le> r" using assms(1) low by (cases i) simp_all
  moreover have "sum_list (take (Suc i) ws) = sum_list (take i ws) + ws ! i"
    using i by (simp add: take_Suc_conv_app_nth)
  ultimately show ?thesis using up by simp
qed

lemma cumulativeIndex_exists:
  assumes "r < sum_list ws" "ws \<noteq> []"
  shows "\<exists>i. cumulativeIndex ws r i"
proof -
  let ?P = "\<lambda>i. i < length ws \<and> r < sum_list (take (Suc i) ws)"
  have "?P (length ws - 1)" using assms by simp
  then have "?P (LEAST i. ?P i)" by (rule LeastI)
  moreover have "\<forall>j<(LEAST i. ?P i). sum_list (take (Suc j) ws) \<le> r"
  proof (intro allI impI)
    fix j assume j: "j < (LEAST i. ?P i)"
    then have "\<not> ?P j" by (rule not_less_Least)
    moreover have "j < length ws" using j \<open>?P (LEAST i. ?P i)\<close> by linarith
    ultimately show "sum_list (take (Suc j) ws) \<le> r" by simp
  qed
  ultimately show ?thesis unfolding cumulativeIndex_def by blast
qed



text \<open>The facts that evaluate the sampling examples.\<close>

lemmas sample_eval = sampleFromIsland_def sampleFromIslandWeighted_def
  sampleFromIslandRandom_def sampleFromArchiveForIsland_def pickProgram_def lookupAll_def
  dbTwoResidents_def defaultDatabaseConfig_def fitness_def getFitnessScore_def
  exampleProgram_def Let_def List.map_filter_def




text \<open>
  On this island the parent is \<open>p1\<close> for the draws \<open>(randVal, pick)\<close> with
  \<open>pick < 1 / 2\<close> when \<open>randVal < 0.9\<close>, and with \<open>pick < 3 / 4\<close> otherwise: a region of
  area 0.525 of the unit square, where a uniform choice among the two residents has
  \<open>1 / 2\<close>.
\<close>

lemma floor_twice:
  fixes u :: real
  assumes "0 \<le> u" "u < 1"
  shows "\<lfloor>u * 2\<rfloor> = (if u < 1 / 2 then 0 else 1)"
  using assms by (simp add: floor_eq_iff)

lemma sampleFromIsland_two_residents:
  assumes "0 \<le> u" "u < 1"
  shows "map_sum id (pid \<circ> fst)
           (sampleFromIsland defaultDatabaseConfig dbTwoResidents 0 5
              \<lparr>randVal = r, pick = u, shuffled = sh\<rparr>)
         = Inr (if r < 0.9 then (if u < 1 / 2 then ''p1'' else ''p2'')
                else (if u < 3 / 4 then ''p1'' else ''p2''))"
proof -
  have f: "\<lfloor>u * 2\<rfloor> = (if u < 1 / 2 then 0 else 1)" using assms by (rule floor_twice)
  show ?thesis by (simp add: sample_eval f)
qed

end
